theory Spec2Isabelle
  imports Main "HOL-Library.AList"
begin

section \<open>Strings and characters\<close>

text \<open>
  A JavaScript string is a sequence of UTF-16 code units. The patterns of this program
  name ASCII characters only, apart from \<open>\s\<close>, so a string is modelled as a
  \<^typ>\<open>string\<close> whose characters are the code units below 256. A code unit above that
  range is treated by every pattern of the program like the character 128 (it belongs to
  no class) or, when it is white space, like the no-break space 160.
\<close>

definition code :: "char \<Rightarrow> nat" where
  "code c = of_char c"

definition in_range :: "char \<Rightarrow> char \<Rightarrow> char \<Rightarrow> bool" where
  "in_range lo hi c = (code lo \<le> code c \<and> code c \<le> code hi)"

definition is_digit :: "char \<Rightarrow> bool" where
  "is_digit c = in_range (CHR ''0'') (CHR ''9'') c"

definition is_upper :: "char \<Rightarrow> bool" where
  "is_upper c = in_range (CHR ''A'') (CHR ''Z'') c"

definition is_lower :: "char \<Rightarrow> bool" where
  "is_lower c = in_range (CHR ''a'') (CHR ''z'') c"

text \<open>\<open>\s\<close>: tab, line feed, vertical tab, form feed, carriage return, space, no-break space.\<close>

definition is_space :: "char \<Rightarrow> bool" where
  "is_space c = (code c \<in> {9, 10, 11, 12, 13, 32, 160})"

text \<open>The word characters of \<open>\b\<close> (no unicode flag): letters, digits and the underscore.\<close>

definition is_word_char :: "char \<Rightarrow> bool" where
  "is_word_char c = (is_lower c \<or> is_upper c \<or> is_digit c \<or> c = CHR ''_'')"

definition to_upper :: "char \<Rightarrow> char" where
  "to_upper c = (if is_lower c then char_of (code c - 32) else c)"

definition to_lower :: "char \<Rightarrow> char" where
  "to_lower c = (if is_upper c then char_of (code c + 32) else c)"

text \<open>
  \<open>Canonicalize\<close> of the regular expression semantics, without the unicode flag: with
  \<open>ignoreCase\<close> a character is compared through its upper-case form, and a character
  outside ASCII never becomes an ASCII one. Only comparisons with ASCII pattern characters
  occur, so the characters outside ASCII are left as they are.
\<close>

definition canon :: "bool \<Rightarrow> char \<Rightarrow> char" where
  "canon ic c = (if ic then to_upper c else c)"

section \<open>Regular expressions with backtracking\<close>

datatype citem = Ch char | Rng char char | Digit | Space

datatype re =
    Eps
  | Lit char
  | Cls "citem list"
  | WordB
  | Seq re re
  | Alt re re
  | Rep re nat "nat option" bool
  | Grp nat re
  | Bref nat

text \<open>
  A match state: the input already passed (the nearest character first), the input still
  ahead, and the captures. A matcher returns the states it can end in, in the order in
  which backtracking tries them; the match found is the first one.
\<close>

datatype mstate = MState (passed: string) (ahead: string) (caps: "nat \<rightharpoonup> string")

definition case_forms :: "bool \<Rightarrow> char \<Rightarrow> char list" where
  "case_forms ic c = (if ic then [c, to_upper c, to_lower c] else [c])"

fun item_has :: "bool \<Rightarrow> citem \<Rightarrow> char \<Rightarrow> bool" where
  "item_has ic (Ch a) c = (canon ic a = canon ic c)"
| "item_has ic (Rng lo hi) c = (\<exists>d \<in> set (case_forms ic c). in_range lo hi d)"
| "item_has ic Digit c = is_digit c"
| "item_has ic Space c = is_space c"

definition in_class :: "bool \<Rightarrow> citem list \<Rightarrow> char \<Rightarrow> bool" where
  "in_class ic items c = (\<exists>it \<in> set items. item_has ic it c)"

definition step_if :: "(char \<Rightarrow> bool) \<Rightarrow> mstate \<Rightarrow> mstate list" where
  "step_if p x =
     (if ahead x \<noteq> [] \<and> p (hd (ahead x))
      then [MState (hd (ahead x) # passed x) (tl (ahead x)) (caps x)] else [])"

definition word_before :: "mstate \<Rightarrow> bool" where
  "word_before x = (case passed x of [] \<Rightarrow> False | c # _ \<Rightarrow> is_word_char c)"

definition word_after :: "mstate \<Rightarrow> bool" where
  "word_after x = (case ahead x of [] \<Rightarrow> False | c # _ \<Rightarrow> is_word_char c)"

definition consumed :: "mstate \<Rightarrow> mstate \<Rightarrow> string" where
  "consumed x y = rev (take (length (passed y) - length (passed x)) (passed y))"

fun groups_of :: "re \<Rightarrow> nat list" where
  "groups_of (Seq r1 r2) = groups_of r1 @ groups_of r2"
| "groups_of (Alt r1 r2) = groups_of r1 @ groups_of r2"
| "groups_of (Rep r mn mx g) = groups_of r"
| "groups_of (Grp n r) = n # groups_of r"
| "groups_of r = []"

definition clear :: "nat list \<Rightarrow> mstate \<Rightarrow> mstate" where
  "clear gs x = MState (passed x) (ahead x) (\<lambda>n. if n \<in> set gs then None else caps x n)"

fun backref :: "bool \<Rightarrow> string \<Rightarrow> mstate \<Rightarrow> mstate list" where
  "backref ic [] x = [x]"
| "backref ic (a # as) x = concat (map (backref ic as) (step_if (\<lambda>c. canon ic a = canon ic c) x))"

text \<open>
  \<open>RepeatMatcher\<close>: the quantifier \<open>{mn,mx}\<close> (\<open>mx = None\<close> is no upper bound) over the
  matcher \<open>m\<close>. The captures of the groups inside are cleared before each iteration, an
  iteration that consumes nothing is refused once the minimum is reached, a greedy
  quantifier tries another iteration before it tries to stop and a lazy one the other way
  round. A matcher never moves backwards; the filter records it, and the recursion is
  well-founded for that reason.
\<close>

function repeat :: "(mstate \<Rightarrow> mstate list) \<Rightarrow> nat list \<Rightarrow> nat \<Rightarrow> nat option \<Rightarrow> bool
    \<Rightarrow> mstate \<Rightarrow> mstate list" where
  "repeat m gs mn mx greedy x =
    (if mx = Some 0 then [x]
     else if mn \<noteq> 0 then
       concat (map (repeat m gs (mn - 1) (map_option (\<lambda>k. k - 1) mx) greedy)
         (filter (\<lambda>y. length (ahead y) \<le> length (ahead x)) (m (clear gs x))))
     else if greedy then
       concat (map (repeat m gs 0 (map_option (\<lambda>k. k - 1) mx) greedy)
         (filter (\<lambda>y. length (ahead y) < length (ahead x)) (m (clear gs x)))) @ [x]
     else
       x # concat (map (repeat m gs 0 (map_option (\<lambda>k. k - 1) mx) greedy)
         (filter (\<lambda>y. length (ahead y) < length (ahead x)) (m (clear gs x)))))"
  by pat_completeness auto
termination
  by (relation "measure (\<lambda>(m, gs, mn, mx, greedy, x). mn + length (ahead x))") auto

declare repeat.simps [simp del]

fun rmatch :: "bool \<Rightarrow> re \<Rightarrow> mstate \<Rightarrow> mstate list" where
  "rmatch ic Eps x = [x]"
| "rmatch ic (Lit a) x = step_if (\<lambda>c. canon ic a = canon ic c) x"
| "rmatch ic (Cls items) x = step_if (in_class ic items) x"
| "rmatch ic WordB x = (if word_before x \<noteq> word_after x then [x] else [])"
| "rmatch ic (Seq r1 r2) x = concat (map (rmatch ic r2) (rmatch ic r1 x))"
| "rmatch ic (Alt r1 r2) x = rmatch ic r1 x @ rmatch ic r2 x"
| "rmatch ic (Rep r mn mx greedy) x = repeat (rmatch ic r) (groups_of r) mn mx greedy x"
| "rmatch ic (Grp n r) x = map (\<lambda>y. MState (passed y) (ahead y) ((caps y)(n \<mapsto> consumed x y))) (rmatch ic r x)"
| "rmatch ic (Bref n) x = (case caps x n of None \<Rightarrow> [x] | Some s \<Rightarrow> backref ic s x)"

text \<open>
  \<open>RegExpBuiltinExec\<close> at one position: the whole pattern is group 0, and the captures
  start empty.
\<close>

definition exec_here :: "bool \<Rightarrow> re \<Rightarrow> string \<Rightarrow> string \<Rightarrow> mstate list" where
  "exec_here ic r bef rst = rmatch ic (Grp 0 r) (MState bef rst Map.empty)"

fun search :: "bool \<Rightarrow> re \<Rightarrow> string \<Rightarrow> string \<Rightarrow> mstate option" where
  "search ic r bef [] = (case exec_here ic r bef [] of [] \<Rightarrow> None | y # _ \<Rightarrow> Some y)"
| "search ic r bef (c # cs) =
     (case exec_here ic r bef (c # cs) of [] \<Rightarrow> search ic r (c # bef) cs | y # _ \<Rightarrow> Some y)"

definition re_test :: "bool \<Rightarrow> re \<Rightarrow> string \<Rightarrow> bool" where
  "re_test ic r s = (search ic r [] s \<noteq> None)"

fun lit :: "string \<Rightarrow> re" where
  "lit [] = Eps"
| "lit (c # cs) = Seq (Lit c) (lit cs)"

fun alts :: "re list \<Rightarrow> re" where
  "alts [] = Cls []"
| "alts [r] = r"
| "alts (r # rs) = Alt r (alts rs)"

definition forbidden_keywords :: "string list" where
  "forbidden_keywords = [''INSERT'', ''UPDATE'', ''DELETE'', ''DROP'', ''TRUNCATE'', ''ALTER'', ''REPLACE'', ''MERGE'']"

definition FORBIDDEN_RE :: re where
  "FORBIDDEN_RE = Seq WordB (Seq (Grp 1 (alts (map lit forbidden_keywords))) WordB)"

definition isForbidden :: "string \<Rightarrow> bool" where
  "isForbidden sql = re_test True FORBIDDEN_RE sql"

definition whole_word_occurrence :: "string \<Rightarrow> string \<Rightarrow> bool" where
  "whole_word_occurrence k s =
     (\<exists>pre w post. s = pre @ w @ post \<and> map to_upper w = map to_upper k \<and>
        \<not> (pre \<noteq> [] \<and> is_word_char (last pre)) \<and> \<not> (post \<noteq> [] \<and> is_word_char (hd post)))"

definition contains_forbidden_keyword :: "string \<Rightarrow> bool" where
  "contains_forbidden_keyword s = (\<exists>k \<in> set forbidden_keywords. whole_word_occurrence k s)"

lemma search_Some_iff:
  "search ic r bef rst \<noteq> None \<longleftrightarrow> (\<exists>u v. rst = u @ v \<and> exec_here ic r (rev u @ bef) v \<noteq> [])"
proof (induction rst arbitrary: bef)
  case Nil
  then show ?case by (auto split: list.splits)
next
  case (Cons c cs)
  show ?case
  proof (cases "exec_here ic r bef (c # cs)")
    case Nil
    have "(\<exists>u v. c # cs = u @ v \<and> exec_here ic r (rev u @ bef) v \<noteq> [])
        \<longleftrightarrow> (\<exists>u v. cs = u @ v \<and> exec_here ic r (rev u @ c # bef) v \<noteq> [])"
    proof
      assume "\<exists>u v. c # cs = u @ v \<and> exec_here ic r (rev u @ bef) v \<noteq> []"
      then obtain u v where uv: "c # cs = u @ v" "exec_here ic r (rev u @ bef) v \<noteq> []" by blast
      with Nil have "u \<noteq> []" by (cases u) auto
      then obtain u' where "u = c # u'" using uv(1) by (cases u) auto
      with uv show "\<exists>u v. cs = u @ v \<and> exec_here ic r (rev u @ c # bef) v \<noteq> []" by auto
    next
      assume "\<exists>u v. cs = u @ v \<and> exec_here ic r (rev u @ c # bef) v \<noteq> []"
      then obtain u v where uv: "cs = u @ v" "exec_here ic r (rev u @ c # bef) v \<noteq> []" by blast
      then have "c # cs = (c # u) @ v \<and> exec_here ic r (rev (c # u) @ bef) v \<noteq> []" by simp
      then show "\<exists>u v. c # cs = u @ v \<and> exec_here ic r (rev u @ bef) v \<noteq> []" by blast
    qed
    with Nil Cons.IH [of "c # bef"] show ?thesis by simp
  next
    case (Cons y ys)
    then have "c # cs = [] @ (c # cs) \<and> exec_here ic r (rev [] @ bef) (c # cs) \<noteq> []" by simp
    then have "\<exists>u v. c # cs = u @ v \<and> exec_here ic r (rev u @ bef) v \<noteq> []" by blast
    with Cons show ?thesis by simp
  qed
qed

lemma rmatch_lit:
  "rmatch ic (lit k) x =
     (if length k \<le> length (ahead x) \<and> map (canon ic) (take (length k) (ahead x)) = map (canon ic) k
      then [(MState (rev (take (length k) (ahead x)) @ passed x) (drop (length k) (ahead x)) (caps x))]
      else [])"
proof (induction k arbitrary: x)
  case Nil
  then show ?case by simp
next
  case (Cons a k)
  show ?case
  proof (cases "ahead x")
    case Nil
    then show ?thesis by (simp add: step_if_def)
  next
    case ahead_c: (Cons c cs)
    show ?thesis using ahead_c Cons.IH [of "(MState (c # passed x) cs (caps x))"]
      apply (simp add: step_if_def)
      done
  qed
qed

lemma in_class_Nil: "in_class ic [] c = False"
  by (simp add: in_class_def)

lemma set_rmatch_alts: "set (rmatch ic (alts rs) x) = (\<Union>r \<in> set rs. set (rmatch ic r x))"
proof (induction rs rule: alts.induct)
  case 1
  show ?case by (cases "ahead x") (simp_all add: step_if_def in_class_Nil)
next
  case (2 r)
  show ?case by simp
next
  case (3 r v va)
  then show ?case by simp
qed

lemma rmatch_Seq_nonempty:
  "rmatch ic (Seq r1 r2) x \<noteq> [] \<longleftrightarrow> (\<exists>y \<in> set (rmatch ic r1 x). rmatch ic r2 y \<noteq> [])"
  by auto

lemma code_lt_256: "code c < 256"
  by (simp add: code_def)

lemma code_char_of_lower: "is_lower c \<Longrightarrow> code (char_of (code c - 32)) = code c - 32"
proof -
  assume "is_lower c"
  have "code c - 32 < 256" using code_lt_256 [of c] by arith
  then show ?thesis unfolding code_def by (simp only: of_char_of mod_less)
qed

lemma canon_True: "canon True = to_upper"
  by (rule ext) (simp add: canon_def)

lemma to_upper_word_char: "is_word_char (to_upper c) = is_word_char c"
proof (cases "is_lower c")
  case True
  then have "97 \<le> code c" "code c \<le> 122"
    by (simp_all add: is_lower_def in_range_def code_def)
  then have "65 \<le> code c - 32" "code c - 32 \<le> 90" by arith+
  then have "65 \<le> code (to_upper c)" "code (to_upper c) \<le> 90"
    using code_char_of_lower [OF True] True by (simp_all only: to_upper_def if_True)
  then have "is_upper (to_upper c)"
    by (simp add: is_upper_def in_range_def) (simp add: code_def)
  with True show ?thesis by (simp add: is_word_char_def)
next
  case False
  then show ?thesis by (simp add: to_upper_def)
qed

lemma to_upper_eq_word_char: "to_upper c = to_upper d \<Longrightarrow> is_word_char c = is_word_char d"
  using to_upper_word_char [of c] to_upper_word_char [of d] by simp

lemma map_to_upper_hd_last:
  assumes "map to_upper w = map to_upper k" "k \<noteq> []"
  shows "w \<noteq> []" "is_word_char (hd w) = is_word_char (hd k)" "is_word_char (last w) = is_word_char (last k)"
proof -
  from assms show ne: "w \<noteq> []" by auto
  have "hd (map to_upper w) = hd (map to_upper k)" using assms by simp
  then have "to_upper (hd w) = to_upper (hd k)"
    using ne assms(2) by (simp add: hd_map)
  then show "is_word_char (hd w) = is_word_char (hd k)" by (rule to_upper_eq_word_char)
  have "last (map to_upper w) = last (map to_upper k)" using assms by simp
  then have "to_upper (last w) = to_upper (last k)"
    using ne assms(2) by (simp add: last_map)
  then show "is_word_char (last w) = is_word_char (last k)" by (rule to_upper_eq_word_char)
qed

lemma in_rmatch_Seq:
  "y \<in> set (rmatch ic r1 x) \<Longrightarrow> z \<in> set (rmatch ic r2 y) \<Longrightarrow> z \<in> set (rmatch ic (Seq r1 r2) x)"
  by auto

definition wordish :: "string \<Rightarrow> bool" where
  "wordish k = (k \<noteq> [] \<and> is_word_char (hd k) \<and> is_word_char (last k))"

lemma word_before_alt: "word_before x = (passed x \<noteq> [] \<and> is_word_char (hd (passed x)))"
  by (cases "passed x") (simp_all add: word_before_def)

lemma word_after_alt: "word_after x = (ahead x \<noteq> [] \<and> is_word_char (hd (ahead x)))"
  by (cases "ahead x") (simp_all add: word_after_def)

lemma exec_whole_word:
  assumes ks: "\<And>k. k \<in> set ks \<Longrightarrow> wordish k"
  shows "exec_here True (Seq WordB (Seq (Grp n (alts (map lit ks))) WordB)) (rev u) v \<noteq> [] \<longleftrightarrow>
    (\<exists>k \<in> set ks. \<exists>w post. v = w @ post \<and> map to_upper w = map to_upper k \<and>
        \<not> (u \<noteq> [] \<and> is_word_char (last u)) \<and> \<not> (post \<noteq> [] \<and> is_word_char (hd post)))"
    (is "?L \<longleftrightarrow> ?R")
proof
  define x0 where "x0 = (MState (rev u) v Map.empty)"
  assume ?L
  then have wb: "word_before x0 \<noteq> word_after x0"
    and "\<exists>y \<in> set (rmatch True (alts (map lit ks)) x0). word_before y \<noteq> word_after y"
    by (auto simp: exec_here_def x0_def word_before_def word_after_def split: if_splits)
  then obtain k y where k: "k \<in> set ks" and y: "y \<in> set (rmatch True (lit k) x0)"
    and wy: "word_before y \<noteq> word_after y"
    by (auto simp: set_rmatch_alts)
  have ax: "ahead x0 = v" "passed x0 = rev u" by (simp_all add: x0_def)
  from y have "y \<in> set (if length k \<le> length v \<and> map to_upper (take (length k) v) = map to_upper k
      then [MState (rev (take (length k) v) @ rev u) (drop (length k) v) (caps x0)] else [])"
    unfolding rmatch_lit ax canon_True .
  then have len: "length k \<le> length v" and eq: "map to_upper (take (length k) v) = map to_upper k"
    and yeq: "y = (MState (rev (take (length k) v) @ rev u) (drop (length k) v) (caps x0))"
    by (simp_all split: if_splits)
  let ?w = "take (length k) v" and ?post = "drop (length k) v"
  from ks [OF k] have wk: "k \<noteq> []" "is_word_char (hd k)" "is_word_char (last k)"
    by (simp_all add: wordish_def)
  note hl = map_to_upper_hd_last [OF eq wk(1)]
  have hdv: "hd v = hd ?w" using hl(1) by (cases v; cases k) simp_all
  have "v \<noteq> []" using hl(1) by auto
  then have "word_after x0" using hl(2) wk(2) hdv by (simp add: word_after_alt ax)
  with wb have 1: "\<not> (u \<noteq> [] \<and> is_word_char (last u))"
    by (simp add: word_before_alt ax hd_rev)
  have "passed y = rev ?w @ rev u" "ahead y = ?post" by (simp_all add: yeq)
  moreover have "hd (rev ?w @ rev u) = last ?w" using hl(1) by (simp add: hd_append hd_rev)
  ultimately have "word_before y" and ay: "ahead y = ?post"
    using hl wk(3) by (simp_all add: word_before_alt)
  with wy have 2: "\<not> (?post \<noteq> [] \<and> is_word_char (hd ?post))"
    by (simp add: word_after_alt)
  have "v = ?w @ ?post" by simp
  with eq 1 2 k show ?R by blast
next
  assume ?R
  then obtain k w post where k: "k \<in> set ks" and v: "v = w @ post"
    and eq: "map to_upper w = map to_upper k"
    and 1: "\<not> (u \<noteq> [] \<and> is_word_char (last u))"
    and 2: "\<not> (post \<noteq> [] \<and> is_word_char (hd post))" by blast
  define x0 where "x0 = (MState (rev u) v Map.empty)"
  define y where "y = (MState (rev w @ rev u) post (caps x0))"
  from ks [OF k] have wk: "k \<noteq> []" "is_word_char (hd k)" "is_word_char (last k)"
    by (simp_all add: wordish_def)
  note hl = map_to_upper_hd_last [OF eq wk(1)]
  from eq have lw: "length w = length k" by (metis length_map)
  have ax: "ahead x0 = v" "passed x0 = rev u" by (simp_all add: x0_def)
  have "rmatch True (lit k) x0 = [y]"
    unfolding rmatch_lit ax canon_True using eq lw by (simp add: y_def v)
  then have "y \<in> set (rmatch True (lit k) x0)" by simp
  with k have yin: "y \<in> set (rmatch True (alts (map lit ks)) x0)"
    by (auto simp: set_rmatch_alts)
  have py: "passed y = rev w @ rev u" "ahead y = post" by (simp_all add: y_def)
  have "word_after x0" using hl(1,2) wk(2) by (simp add: word_after_alt ax v)
  moreover have "\<not> word_before x0" using 1
    by (simp add: word_before_alt ax hd_rev)
  moreover have "hd (rev w @ rev u) = last w" using hl(1) by (simp add: hd_append hd_rev)
  then have "word_before y" using hl(1,3) wk(3) by (simp add: word_before_alt py)
  moreover have "\<not> word_after y" using 2
    by (simp add: word_after_alt py)
  ultimately have b0: "rmatch True WordB x0 = [x0]" and wby: "word_before y \<noteq> word_after y"
    by simp_all
  define y' where "y' = (MState (passed y) (ahead y) ((caps y)(n \<mapsto> consumed x0 y)))"
  have g: "y' \<in> set (rmatch True (Grp n (alts (map lit ks))) x0)"
    unfolding rmatch.simps(8) y'_def using yin by (rule imageI [THEN set_map [THEN equalityD2, THEN subsetD]])
  have wy': "y' \<in> set (rmatch True WordB y')"
    using wby by (simp add: y'_def word_before_def word_after_def)
  have "x0 \<in> set (rmatch True WordB x0)"
    using b0 by simp
  from this in_rmatch_Seq [OF g wy']
  have "y' \<in> set (rmatch True (Seq WordB (Seq (Grp n (alts (map lit ks))) WordB)) x0)"
    by (rule in_rmatch_Seq)
  then have "(\<lambda>z. (MState (passed z) (ahead z) ((caps z)(0 \<mapsto> consumed x0 z)))) y'
      \<in> set (rmatch True (Grp 0 (Seq WordB (Seq (Grp n (alts (map lit ks))) WordB))) x0)"
    unfolding rmatch.simps(8) set_map by (rule imageI)
  then have "rmatch True (Grp 0 (Seq WordB (Seq (Grp n (alts (map lit ks))) WordB))) x0 \<noteq> []"
    by (metis empty_iff list.set(1))
  then show ?L unfolding exec_here_def x0_def .
qed


lemma forbidden_keywords_wordish: "k \<in> set forbidden_keywords \<Longrightarrow> wordish k"
  by (auto simp: forbidden_keywords_def wordish_def is_word_char_def is_upper_def in_range_def code_def)

text \<open>
  Claim C5. The statement classifier (\<open>FORBIDDEN_RE.test\<close>) answers true exactly for the
  strings that contain one of the eight keywords as a whole word: some occurrence of the
  keyword, in any letter case and at any position, that is not directly preceded and not
  directly followed by a letter, a digit or an underscore. Quotes and comment marks play no
  part. For every other string it answers false.
\<close>

theorem isForbidden_iff_keyword: "isForbidden sql \<longleftrightarrow> contains_forbidden_keyword sql"
proof -
  have "isForbidden sql \<longleftrightarrow>
      (\<exists>u v. sql = u @ v \<and> exec_here True FORBIDDEN_RE (rev u) v \<noteq> [])"
    using search_Some_iff [of True FORBIDDEN_RE "[]" sql]
    by (simp add: isForbidden_def re_test_def)
  also have "\<dots> \<longleftrightarrow> (\<exists>u v. sql = u @ v \<and>
      (\<exists>k \<in> set forbidden_keywords. \<exists>w post. v = w @ post \<and> map to_upper w = map to_upper k \<and>
        \<not> (u \<noteq> [] \<and> is_word_char (last u)) \<and> \<not> (post \<noteq> [] \<and> is_word_char (hd post))))"
    unfolding FORBIDDEN_RE_def
    by (simp only: exec_whole_word [of forbidden_keywords, OF forbidden_keywords_wordish])
  also have "\<dots> \<longleftrightarrow> contains_forbidden_keyword sql"
    unfolding contains_forbidden_keyword_def whole_word_occurrence_def by blast
  finally show ?thesis .
qed

theorem isForbidden_iff_keyword_witness:
  "isForbidden ''select 1; Drop table sales'' \<and> contains_forbidden_keyword ''select 1; Drop table sales''
   \<and> \<not> isForbidden ''select dropped from updates'' \<and> \<not> contains_forbidden_keyword ''select dropped from updates''"
proof -
  have a: "isForbidden ''select 1; Drop table sales''" by code_simp
  have b: "\<not> isForbidden ''select dropped from updates''" by code_simp
  show ?thesis
    using a b isForbidden_iff_keyword [of "''select 1; Drop table sales''"]
      isForbidden_iff_keyword [of "''select dropped from updates''"] by simp
qed

section \<open>Global matching\<close>

definition extends :: "mstate \<Rightarrow> mstate \<Rightarrow> bool" where
  "extends x y = (\<exists>u. ahead x = u @ ahead y \<and> passed y = rev u @ passed x)"

lemma extends_refl: "extends x x"
  by (simp add: extends_def)

lemma extends_trans: "extends x y \<Longrightarrow> extends y z \<Longrightarrow> extends x z"
  by (auto simp: extends_def)

lemma extends_caps:
  "extends (MState (passed x) (ahead x) f) y = extends x y"
  "extends x (MState (passed y) (ahead y) g) = extends x y"
  by (simp_all add: extends_def)

lemma extends_length: "extends x y \<Longrightarrow> length (ahead y) \<le> length (ahead x)"
  by (auto simp: extends_def)

lemma set_step_if:
  "y \<in> set (step_if p x) \<longleftrightarrow>
     ahead x \<noteq> [] \<and> p (hd (ahead x)) \<and> y = MState (hd (ahead x) # passed x) (tl (ahead x)) (caps x)"
proof (cases "ahead x \<noteq> [] \<and> p (hd (ahead x))")
  case True
  then have "step_if p x = [MState (hd (ahead x) # passed x) (tl (ahead x)) (caps x)]"
    unfolding step_if_def by (rule if_P)
  with True show ?thesis by simp
next
  case False
  then have "step_if p x = []"
    unfolding step_if_def by (rule if_not_P)
  with False show ?thesis by auto
qed

lemma step_if_cases:
  "y \<in> set (step_if p x) \<Longrightarrow> \<exists>c cs. ahead x = c # cs \<and> p c \<and> y = MState (c # passed x) cs (caps x)"
  unfolding set_step_if by (cases "ahead x") simp_all

lemma step_if_extends: "y \<in> set (step_if p x) \<Longrightarrow> extends x y"
proof -
  assume "y \<in> set (step_if p x)"
  then obtain c cs where "ahead x = c # cs" "y = MState (c # passed x) cs (caps x)"
    using step_if_cases by blast
  then have "ahead x = [c] @ ahead y \<and> passed y = rev [c] @ passed x" by simp
  then show ?thesis unfolding extends_def by (rule exI [of _ "[c]"])
qed

lemma backref_extends: "y \<in> set (backref ic s x) \<Longrightarrow> extends x y"
proof (induction s arbitrary: x)
  case Nil
  then show ?case by (simp add: extends_refl)
next
  case (Cons a s)
  then obtain z where "z \<in> set (step_if (\<lambda>c. canon ic a = canon ic c) x)" "y \<in> set (backref ic s z)"
    by auto
  then show ?case using Cons.IH step_if_extends extends_trans by blast
qed

lemma repeat_extends:
  "(\<And>x y. y \<in> set (m x) \<Longrightarrow> extends x y) \<Longrightarrow>
    y \<in> set (repeat m gs mn mx greedy x) \<Longrightarrow> extends x y"
proof (induction m gs mn mx greedy x arbitrary: y rule: repeat.induct)
  case (1 m gs mn mx greedy x)
  show ?case
  proof (cases "mx = Some 0")
    case True
    with "1.prems"(2) have "y = x" by (subst (asm) repeat.simps) simp
    then show ?thesis by (simp add: extends_refl)
  next
    case False
    have step: "extends x z" if "z \<in> set (m (clear gs x))" for z
      using "1.prems"(1) [OF that] by (simp add: clear_def extends_caps)
    show ?thesis
    proof (cases "mn \<noteq> 0")
      case True
      with False "1.prems"(2) obtain z where z: "z \<in> set (m (clear gs x))"
          "length (ahead z) \<le> length (ahead x)"
          "y \<in> set (repeat m gs (mn - 1) (map_option (\<lambda>k. k - 1) mx) greedy z)"
        by (subst (asm) repeat.simps) auto
      from "1.IH"(1) [OF False True _ "1.prems"(1) z(3)] z
      have "extends z y" by simp
      with step [OF z(1)] show ?thesis by (rule extends_trans)
    next
      case mn0: False
      show ?thesis
      proof (cases greedy)
        case True
        with False mn0 "1.prems"(2) consider "y = x" |
          z where "z \<in> set (m (clear gs x))" "length (ahead z) < length (ahead x)"
            "y \<in> set (repeat m gs 0 (map_option (\<lambda>k. k - 1) mx) greedy z)"
          by (subst (asm) repeat.simps) auto
        then show ?thesis
        proof cases
          case 1
          then show ?thesis by (simp add: extends_refl)
        next
          case (2 z)
          from "1.IH"(2) [OF False mn0 True _ "1.prems"(1) 2(3)] 2
          have "extends z y" by simp
          with step [OF 2(1)] show ?thesis by (rule extends_trans)
        qed
      next
        case lazy: False
        with False mn0 "1.prems"(2) consider "y = x" |
          z where "z \<in> set (m (clear gs x))" "length (ahead z) < length (ahead x)"
            "y \<in> set (repeat m gs 0 (map_option (\<lambda>k. k - 1) mx) greedy z)"
          by (subst (asm) repeat.simps) auto
        then show ?thesis
        proof cases
          case 1
          then show ?thesis by (simp add: extends_refl)
        next
          case (2 z)
          from "1.IH"(3) [OF False mn0 lazy _ "1.prems"(1) 2(3)] 2
          have "extends z y" by simp
          with step [OF 2(1)] show ?thesis by (rule extends_trans)
        qed
      qed
    qed
  qed
qed

lemma rmatch_extends: "y \<in> set (rmatch ic r x) \<Longrightarrow> extends x y"
proof (induction r arbitrary: x y)
  case Eps
  then show ?case by (simp add: extends_refl)
next
  case (Lit a)
  then show ?case by (simp add: step_if_extends)
next
  case (Cls items)
  then show ?case by (simp add: step_if_extends)
next
  case WordB
  then show ?case by (simp add: extends_refl split: if_splits)
next
  case (Seq r1 r2)
  from Seq.prems obtain z where "z \<in> set (rmatch ic r1 x)" "y \<in> set (rmatch ic r2 z)"
    by auto
  then show ?case using Seq.IH extends_trans by blast
next
  case (Alt r1 r2)
  then show ?case by auto
next
  case (Rep r mn mx greedy)
  from Rep.prems have "y \<in> set (repeat (rmatch ic r) (groups_of r) mn mx greedy x)" by simp
  then show ?case using Rep.IH by (rule repeat_extends [rotated])
next
  case (Grp n r)
  from Grp.prems obtain z where z: "z \<in> set (rmatch ic r x)"
      "y = MState (passed z) (ahead z) ((caps z)(n \<mapsto> consumed x z))"
    by auto
  from Grp.IH [OF z(1)] show ?case unfolding z(2) by (simp add: extends_caps)
next
  case (Bref n)
  then show ?case by (auto simp: extends_refl backref_extends split: option.splits)
qed

lemma consumed_extends:
  "ahead x = u @ ahead y \<Longrightarrow> passed y = rev u @ passed x \<Longrightarrow> consumed x y = u"
  by (simp add: consumed_def)

lemma exec_here_result:
  assumes "y \<in> set (exec_here ic r bef rst)"
  shows "\<exists>u. rst = u @ ahead y \<and> passed y = rev u @ bef \<and> caps y 0 = Some u"
proof -
  let ?x = "MState bef rst Map.empty"
  from assms obtain z where z: "z \<in> set (rmatch ic r ?x)"
      "y = MState (passed z) (ahead z) ((caps z)(0 \<mapsto> consumed ?x z))"
    by (auto simp: exec_here_def)
  from rmatch_extends [OF z(1)] obtain u where u: "rst = u @ ahead z" "passed z = rev u @ bef"
    by (auto simp: extends_def)
  then have "consumed ?x z = u" by (simp add: consumed_extends)
  with u z(2) show ?thesis by simp
qed

lemma exec_here_progress:
  assumes "exec_here ic r bef rst = y # ys" "caps y 0 \<noteq> Some []"
  shows "length (ahead y) < length rst"
proof -
  from assms(1) have "y \<in> set (exec_here ic r bef rst)" by simp
  from exec_here_result [OF this] obtain u where "rst = u @ ahead y" "caps y 0 = Some u" by blast
  with assms(2) show ?thesis by (cases u) auto
qed

text \<open>
  Scanning with the global flag, as \<open>matchAll\<close> and \<open>replace\<close> do: the leftmost match from
  the current position, then again from its end, and one character further after an empty
  match.
\<close>

function match_all :: "bool \<Rightarrow> re \<Rightarrow> string \<Rightarrow> string \<Rightarrow> mstate list" where
  "match_all ic r bef rst =
     (case exec_here ic r bef rst of
        [] \<Rightarrow> (if rst = [] then [] else match_all ic r (hd rst # bef) (tl rst))
      | y # _ \<Rightarrow>
          y # (if caps y 0 = Some []
               then (if rst = [] then [] else match_all ic r (hd rst # bef) (tl rst))
               else match_all ic r (passed y) (ahead y)))"
  by pat_completeness auto
termination
proof (relation "measure (\<lambda>(ic, r, bef, rst). length rst)", goal_cases)
  case 1
  show ?case by simp
next
  case (2 ic r bef rst)
  then show ?case by (cases rst) simp_all
next
  case (3 ic r bef rst y ys)
  then show ?case by (cases rst) simp_all
next
  case (4 ic r bef rst y ys)
  then show ?case using exec_here_progress [of ic r bef rst y ys] by simp
qed

declare match_all.simps [simp del]

function replace_all :: "bool \<Rightarrow> re \<Rightarrow> (mstate \<Rightarrow> string) \<Rightarrow> string \<Rightarrow> string \<Rightarrow> string" where
  "replace_all ic r f bef rst =
     (case exec_here ic r bef rst of
        [] \<Rightarrow> (if rst = [] then [] else hd rst # replace_all ic r f (hd rst # bef) (tl rst))
      | y # _ \<Rightarrow>
          f y @ (if caps y 0 = Some []
                 then (if rst = [] then [] else hd rst # replace_all ic r f (hd rst # bef) (tl rst))
                 else replace_all ic r f (passed y) (ahead y)))"
  by pat_completeness auto
termination
proof (relation "measure (\<lambda>(ic, r, f, bef, rst). length rst)", goal_cases)
  case 1
  show ?case by simp
next
  case (2 ic r f bef rst)
  then show ?case by (cases rst) simp_all
next
  case (3 ic r f bef rst y ys)
  then show ?case by (cases rst) simp_all
next
  case (4 ic r f bef rst y ys)
  then show ?case using exec_here_progress [of ic r bef rst y ys] by simp
qed

declare replace_all.simps [simp del]

section \<open>Table reference extractor\<close>

definition dquote :: char where "dquote = CHR 0x22"
definition backtick :: char where "backtick = CHR 0x60"
definition squote :: char where "squote = CHR 0x27"
definition newline :: char where "newline = CHR 0x0A"

fun seqs :: "re list \<Rightarrow> re" where
  "seqs [] = Eps"
| "seqs [r] = r"
| "seqs (r # rs) = Seq r (seqs rs)"

definition group :: "nat \<Rightarrow> mstate \<Rightarrow> string" where
  "group n y = (case caps y n of Some s \<Rightarrow> s | None \<Rightarrow> [])"

fun split_on :: "char \<Rightarrow> string \<Rightarrow> string list" where
  "split_on d [] = [[]]"
| "split_on d (c # cs) =
     (if c = d then [] # split_on d cs
      else (case split_on d cs of [] \<Rightarrow> [[c]] | w # ws \<Rightarrow> (c # w) # ws))"

definition to_lower_case :: "char \<Rightarrow> char" where
  "to_lower_case c =
     (if is_upper c \<or> (192 \<le> code c \<and> code c \<le> 222 \<and> code c \<noteq> 215)
      then char_of (code c + 32) else c)"

definition toLowerCase :: "string \<Rightarrow> string" where
  "toLowerCase s = map to_lower_case s"

fun startsWith :: "string \<Rightarrow> string \<Rightarrow> bool" where
  "startsWith s [] = True"
| "startsWith [] (p # ps) = False"
| "startsWith (c # cs) (p # ps) = (c = p \<and> startsWith cs ps)"

definition set_add :: "'a \<Rightarrow> 'a list \<Rightarrow> 'a list" where
  "set_add x xs = (if x \<in> set xs then xs else xs @ [x])"

definition ident_class :: "citem list" where
  "ident_class = [Rng (CHR ''a'') (CHR ''z''), Rng (CHR ''A'') (CHR ''Z''), Rng (CHR ''0'') (CHR ''9''),
     Ch (CHR ''_''), Ch (CHR ''$''), Ch (CHR ''.'')]"

definition table_ref_re :: "string \<Rightarrow> re" where
  "table_ref_re kw = seqs [WordB, lit kw, Rep (Cls [Space]) 1 None True,
     Grp 1 (Rep (Cls [Ch backtick, Ch dquote]) 0 (Some 1) True),
     Grp 2 (Rep (Cls ident_class) 1 None True), Bref 1]"

definition AS_RE :: re where
  "AS_RE = seqs [WordB, Grp 1 (Rep (Cls ident_class) 1 None True), Rep (Cls [Space]) 1 None True,
     lit ''as'', Rep (Cls [Space]) 1 None True,
     Rep (Cls [Rng (CHR ''a'') (CHR ''z''), Rng (CHR ''A'') (CHR ''Z''), Rng (CHR ''0'') (CHR ''9''),
       Ch (CHR ''_'')]) 1 None True, WordB]"

definition last_segment :: "string \<Rightarrow> string" where
  "last_segment s = last (split_on (CHR ''.'') s)"

definition strip_quotes :: "string \<Rightarrow> string" where
  "strip_quotes s = replace_all False (Cls [Ch backtick, Ch dquote]) (\<lambda>m. []) [] s"

definition table_name :: "string \<Rightarrow> string" where
  "table_name s = strip_quotes (last_segment s)"

definition normalize :: "string \<Rightarrow> string" where
  "normalize sql = replace_all False (Lit newline) (\<lambda>m. '' '') [] sql"

definition add_tables :: "mstate list \<Rightarrow> string list \<Rightarrow> string list" where
  "add_tables ms names = fold (\<lambda>m ns. set_add (table_name (group 2 m)) ns) ms names"

definition add_aliased :: "mstate list \<Rightarrow> string list \<Rightarrow> string list" where
  "add_aliased ms names =
     fold (\<lambda>m ns. if \<not> startsWith (toLowerCase (group 1 m)) ''select''
                   then set_add (table_name (group 1 m)) ns else ns) ms names"

definition ep_extractTableNames :: "string \<Rightarrow> string list" where
  "ep_extractTableNames sql =
     (let norm = normalize sql;
          names = add_tables (match_all True (table_ref_re ''from'') [] norm) [];
          names = add_tables (match_all True (table_ref_re ''join'') [] norm) names
      in map toLowerCase names)"

definition chat_extractTableNames :: "string \<Rightarrow> string list" where
  "chat_extractTableNames sql =
     (let norm = normalize sql;
          names = add_tables (match_all True (table_ref_re ''from'') [] norm) [];
          names = add_tables (match_all True (table_ref_re ''join'') [] norm) names;
          names = add_aliased (match_all True AS_RE [] norm) names
      in map toLowerCase names)"

section \<open>Access policy\<close>

datatype exn = Error (message: string)

datatype rbac = Allow | Deny string

definition ROLE_TABLE_ALLOWLIST :: "(string \<times> string list) list" where
  "ROLE_TABLE_ALLOWLIST =
     [(''admin'', [''*'']),
      (''finance'', [''sales'', ''products'']),
      (''analyst'', [''sales'', ''products'']),
      (''hr'', []),
      (''guest'', [''products''])]"

text \<open>
  \<open>ROLE_TABLE_ALLOWLIST\<close> is an object literal, so reading a property of it also finds the
  members it inherits from \<open>Object.prototype\<close>: functions, and the prototype object itself
  for \<open>__proto__\<close>. They are truthy and have no \<open>includes\<close> method.
\<close>

definition object_prototype_keys :: "string list" where
  "object_prototype_keys =
     [''constructor'', ''__defineGetter__'', ''__defineSetter__'', ''hasOwnProperty'',
      ''__lookupGetter__'', ''__lookupSetter__'', ''isPrototypeOf'', ''propertyIsEnumerable'',
      ''toString'', ''valueOf'', ''__proto__'', ''toLocaleString'']"

datatype property = Undefined | TableList "string list" | Inherited

definition role_property :: "string \<Rightarrow> property" where
  "role_property role =
     (case map_of ROLE_TABLE_ALLOWLIST role of
        Some tables \<Rightarrow> TableList tables
      | None \<Rightarrow> if role \<in> set object_prototype_keys then Inherited else Undefined)"

fun check_tables :: "string \<Rightarrow> string list \<Rightarrow> string list \<Rightarrow> rbac" where
  "check_tables role allowed [] = Allow"
| "check_tables role allowed (t # ts) =
     (if t \<notin> set allowed
      then Deny (''Role '' @ [dquote] @ role @ [dquote] @ '' is not allowed to access table ''
                 @ [dquote] @ t @ [dquote])
      else check_tables role allowed ts)"

text \<open>
  \<open>checkRBACOnSql\<close>, over the table extractor of its file. \<open>None\<close> is a role that is
  \<open>undefined\<close>; the empty string is falsy as well.
\<close>

definition checkRBACOnSql :: "(string \<Rightarrow> string list) \<Rightarrow> string \<Rightarrow> string option \<Rightarrow> exn + rbac" where
  "checkRBACOnSql extract sql userRole =
     (case userRole of
        None \<Rightarrow> Inr Allow
      | Some role \<Rightarrow>
          if role = [] then Inr Allow
          else (case role_property role of
                  Undefined \<Rightarrow> Inr (Deny (''Unknown role: '' @ role))
                | Inherited \<Rightarrow> Inl (Error ''allowed.includes is not a function'')
                | TableList allowed \<Rightarrow>
                    if ''*'' \<in> set allowed then Inr Allow
                    else Inr (check_tables role allowed (extract sql))))"

definition chat_checkRBACOnSql :: "string \<Rightarrow> string option \<Rightarrow> exn + rbac" where
  "chat_checkRBACOnSql = checkRBACOnSql chat_extractTableNames"

definition ep_checkRBACOnSql :: "string \<Rightarrow> string option \<Rightarrow> exn + rbac" where
  "ep_checkRBACOnSql = checkRBACOnSql ep_extractTableNames"

section \<open>PII masking\<close>

definition local_class :: "citem list" where
  "local_class = [Rng (CHR ''a'') (CHR ''z''), Rng (CHR ''A'') (CHR ''Z''), Rng (CHR ''0'') (CHR ''9''),
     Ch (CHR ''.''), Ch (CHR ''_''), Ch (CHR ''%''), Ch (CHR ''+''), Ch (CHR ''-'')]"

definition domain_class :: "citem list" where
  "domain_class = [Rng (CHR ''a'') (CHR ''z''), Rng (CHR ''A'') (CHR ''Z''), Rng (CHR ''0'') (CHR ''9''),
     Ch (CHR ''.''), Ch (CHR ''-'')]"

definition EMAIL_RE :: re where
  "EMAIL_RE = seqs [Grp 1 (Rep (Cls local_class) 1 None True), Lit (CHR ''@''),
     Grp 2 (seqs [Rep (Cls domain_class) 1 None True, Lit (CHR ''.''),
       Rep (Cls [Rng (CHR ''a'') (CHR ''z''), Rng (CHR ''A'') (CHR ''Z'')]) 2 None True])]"

definition sep_class :: "citem list" where
  "sep_class = [Ch (CHR ''-''), Ch (CHR ''.''), Space]"

definition PHONE_RE :: re where
  "PHONE_RE = Grp 1 (seqs [Rep (Lit (CHR ''+'')) 0 (Some 1) True,
     Rep (Cls [Digit]) 1 (Some 3) True, Rep (Cls sep_class) 0 (Some 1) True,
     Grp 2 (Rep (Cls [Digit]) 2 (Some 4) True), Rep (Cls sep_class) 0 (Some 1) True,
     Rep (Cls [Digit]) 3 (Some 4) True, Rep (Cls sep_class) 0 (Some 1) True,
     Rep (Cls [Digit]) 3 (Some 4) True])"

definition CREDIT_CARD_RE :: re where
  "CREDIT_CARD_RE = seqs [WordB,
     Rep (Seq (Cls [Digit]) (Rep (Cls [Ch (CHR '' ''), Ch (CHR ''-'')]) 0 None False)) 13 (Some 16) True,
     WordB]"

text \<open>The replacement of an email: the first code unit of group 1, then the mask.\<close>

definition mask_email :: "mstate \<Rightarrow> string" where
  "mask_email m = (case caps m 1 of Some (c # cs) \<Rightarrow> c # ''***@***'' | _ \<Rightarrow> ''undefined***@***'')"

definition mask_string :: "string \<Rightarrow> string" where
  "mask_string v =
     (let s = replace_all False EMAIL_RE mask_email [] v;
          s = replace_all False PHONE_RE (\<lambda>m. ''***-PHONE-***'') [] s;
          s = replace_all False CREDIT_CARD_RE (\<lambda>m. ''****-CARD-****'') [] s
      in s)"

text \<open>
  A value of a result row: a string, or anything else (numbers, null, blobs), which
  masking hands back as it is.
\<close>

datatype cell = Text string | Number int | Null | Blob "nat list"

fun maskValue :: "cell \<Rightarrow> cell" where
  "maskValue (Text s) = Text (mask_string s)"
| "maskValue v = v"

text \<open>
  A row is the list of its entries, in the order of \<open>Object.entries\<close>. Assigning the key
  \<open>__proto__\<close> on the fresh object goes to the inherited setter and creates no entry.
\<close>

type_synonym row = "(string \<times> cell) list"

definition maskRow :: "row \<Rightarrow> row" where
  "maskRow r = map (\<lambda>(k, v). (k, maskValue v)) (filter (\<lambda>(k, v). k \<noteq> ''__proto__'') r)"

section \<open>Preview store\<close>

record PreviewEntry =
  query :: string
  userId :: "string option"
  userRole :: "string option"
  createdAt :: int

text \<open>
  A \<open>Map\<close> from preview ids to entries, as the list of its entries in insertion order:
  \<open>get\<close> is \<^const>\<open>map_of\<close>, \<open>set\<close> is \<^const>\<open>AList.update\<close> and \<open>delete\<close> is
  \<^const>\<open>AList.delete\<close>.
\<close>

type_synonym store = "(string \<times> PreviewEntry) list"

definition PREVIEW_TTL_MS :: int where
  "PREVIEW_TTL_MS = 1000 * 60 * 60"

text \<open>The body of the cleanup timer of the chat route, run at the time \<open>now\<close>.\<close>

definition sweep :: "int \<Rightarrow> store \<Rightarrow> store" where
  "sweep now previews =
     fold (\<lambda>(pid, entry) m. if now - createdAt entry > PREVIEW_TTL_MS then AList.delete pid m else m)
       previews previews"

section \<open>Collaborators and state\<close>

datatype dbresult = Rows "row list" | Opaque

datatype run_call = UserQuery string | AuditInsert string

text \<open>
  The external collaborators: the SQL formatter (which may throw), the data store's
  \<open>run\<close> over a database state of any type, and the explanation of a query.
\<close>

record 'db env =
  sqlFormat :: "string \<Rightarrow> exn + string"
  db_run :: "'db \<Rightarrow> string \<Rightarrow> (exn + dbresult) \<times> 'db"
  explainSQL :: "string \<Rightarrow> string"

text \<open>
  The state of the server process: the module-level map of the chat route, the map that
  the execute-preview route keeps in \<open>globalThis.__PENDING_PREVIEWS__\<close>, the database, and
  the texts passed to \<open>db.run\<close> so far. Each handler is modelled as one step.
\<close>

record 'db world =
  chat_previews :: store
  global_previews :: store
  database :: 'db
  db_log :: "run_call list"

definition initial_world :: "'db \<Rightarrow> 'db world" where
  "initial_world d = \<lparr>chat_previews = [], global_previews = [], database = d, db_log = []\<rparr>"

definition run :: "'db env \<Rightarrow> run_call \<Rightarrow> 'db world \<Rightarrow> (exn + dbresult) \<times> 'db world" where
  "run env call w =
     (let text = (case call of UserQuery t \<Rightarrow> t | AuditInsert t \<Rightarrow> t);
          (res, d) = db_run env (database w) text
      in (res, w\<lparr>database := d, db_log := db_log w @ [call]\<rparr>))"

text \<open>What a call reads from the clock and the random generator.\<close>

record clock =
  now_id :: nat
  random36 :: string
  now_created :: int

definition digit36 :: "nat \<Rightarrow> char" where
  "digit36 d = ''0123456789abcdefghijklmnopqrstuvwxyz'' ! d"

fun toString36 :: "nat \<Rightarrow> string" where
  "toString36 n = (if n < 36 then [digit36 n] else toString36 (n div 36) @ [digit36 (n mod 36)])"

declare toString36.simps [simp del]

definition makePreviewId :: "clock \<Rightarrow> string" where
  "makePreviewId ck = toString36 (now_id ck) @ ''-'' @ random36 ck"

text \<open>A string that is present and not empty, the only truthy one.\<close>

definition given :: "string option \<Rightarrow> string option" where
  "given v = (case v of None \<Rightarrow> None | Some s \<Rightarrow> if s = [] then None else Some s)"

definition sql_quote :: "string \<Rightarrow> string" where
  "sql_quote s = concat (map (\<lambda>c. if c = squote then [squote, squote] else [c]) s)"

definition sql_literal :: "string option \<Rightarrow> string" where
  "sql_literal v =
     (case given (map_option sql_quote (given v)) of
        None \<Rightarrow> ''NULL''
      | Some q \<Rightarrow> [squote] @ q @ [squote])"

definition insertSql :: "string option \<Rightarrow> string \<Rightarrow> string option \<Rightarrow> string" where
  "insertSql previewId toRun uid =
     ''INSERT INTO query_logs (preview_id, executed_at, query, user_id) VALUES ('' @
     sql_literal previewId @ '', datetime('' @ [squote] @ ''now'' @ [squote] @ ''), '' @
     [squote] @ sql_quote toRun @ [squote] @ '', '' @ sql_literal uid @ '')''"

definition maskRows :: "dbresult \<Rightarrow> dbresult" where
  "maskRows rows = (case rows of Rows rs \<Rightarrow> Rows (map maskRow rs) | Opaque \<Rightarrow> Opaque)"

text \<open>\<open>a ?? b\<close>\<close>

definition nullish :: "'a option \<Rightarrow> 'a option \<Rightarrow> 'a option" where
  "nullish a b = (case a of None \<Rightarrow> b | Some v \<Rightarrow> Some v)"

section \<open>The tools of the chat route\<close>

record db_input =
  in_query :: string
  in_dryRun :: bool
  in_userId :: "string option"
  in_userRole :: "string option"
  in_previewId :: "string option"

datatype tool_result =
    ToolError string
  | PreviewCreated string string string string
  | Executed dbresult string

definition store_preview :: "clock \<Rightarrow> string \<Rightarrow> string option \<Rightarrow> string option \<Rightarrow> 'db world \<Rightarrow> string \<times> 'db world" where
  "store_preview ck formatted uid role w =
     (let pid = makePreviewId ck;
          entry = \<lparr>query = formatted, userId = uid, userRole = role, createdAt = now_created ck\<rparr>
      in (pid, w\<lparr>chat_previews := AList.update pid entry (chat_previews w)\<rparr>))"

text \<open>The part of the \<open>db\<close> tool from \<open>Final guard check before executing\<close> on.\<close>

definition execute_query :: "'db env \<Rightarrow> string \<Rightarrow> string option \<Rightarrow> string option \<Rightarrow> 'db world
    \<Rightarrow> (exn + tool_result) \<times> 'db world" where
  "execute_query env toRun previewId uid w =
     (if isForbidden toRun
      then (Inr (ToolError ''Query contains forbidden statements and will not be executed.''), w)
      else (case run env (UserQuery toRun) w of
              (Inl e, w1) \<Rightarrow> (Inl e, w1)
            | (Inr rows, w1) \<Rightarrow>
                (let w2 = snd (run env (AuditInsert (insertSql previewId toRun uid)) w1);
                     w3 = (case given previewId of
                             Some pid \<Rightarrow> w2\<lparr>chat_previews := AList.delete pid (chat_previews w2)\<rparr>
                           | None \<Rightarrow> w2)
                 in (Inr (Executed (maskRows rows) toRun), w3))))"

definition db_tool :: "'db env \<Rightarrow> clock \<Rightarrow> db_input \<Rightarrow> 'db world \<Rightarrow> (exn + tool_result) \<times> 'db world" where
  "db_tool env ck inp w =
     (if isForbidden (in_query inp)
      then (Inr (ToolError ''Query contains forbidden statements (INSERT/UPDATE/DELETE/DROP/ALTER/TRUNCATE). Execution aborted.''), w)
      else (case sqlFormat env (in_query inp) of
        Inl e \<Rightarrow> (Inl e, w)
      | Inr formatted \<Rightarrow>
         (case chat_checkRBACOnSql formatted (in_userRole inp) of
            Inl e \<Rightarrow> (Inl e, w)
          | Inr (Deny reason) \<Rightarrow> (Inr (ToolError (''RBAC blocked query execution: '' @ reason)), w)
          | Inr Allow \<Rightarrow>
              if in_dryRun inp then
                (let (pid, w') = store_preview ck formatted (in_userId inp) (in_userRole inp) w
                 in (Inr (PreviewCreated pid formatted (explainSQL env formatted)
                       ''This is a preview. To execute use the /api/execute-preview REST endpoint (POST { previewId, userId, userRole }).''), w'))
              else (case given (in_previewId inp) of
                None \<Rightarrow> execute_query env formatted (in_previewId inp) (in_userId inp) w
              | Some pid \<Rightarrow>
                (case map_of (chat_previews w) pid of
                   None \<Rightarrow> (Inr (ToolError ''Preview id not found or expired.''), w)
                 | Some entry \<Rightarrow>
                     (case chat_checkRBACOnSql (query entry) (nullish (in_userRole inp) (userRole entry)) of
                        Inl e \<Rightarrow> (Inl e, w)
                      | Inr (Deny reason) \<Rightarrow> (Inr (ToolError (''RBAC blocked query execution: '' @ reason)), w)
                      | Inr Allow \<Rightarrow> execute_query env (query entry) (in_previewId inp) (in_userId inp) w))))))"

record preview_input =
  pv_query :: string
  pv_userId :: "string option"
  pv_userRole :: "string option"

definition or_empty :: "string option \<Rightarrow> string" where
  "or_empty v = (case v of None \<Rightarrow> [] | Some s \<Rightarrow> s)"

definition runInstruction :: "string \<Rightarrow> string option \<Rightarrow> string option \<Rightarrow> string" where
  "runInstruction pid uid role =
     ''To execute this preview, POST to /api/execute-preview with JSON { '' @
     [dquote] @ ''previewId'' @ [dquote] @ '': '' @ [dquote] @ pid @ [dquote] @ '', '' @
     [dquote] @ ''userId'' @ [dquote] @ '': '' @ [dquote] @ or_empty uid @ [dquote] @ '', '' @
     [dquote] @ ''userRole'' @ [dquote] @ '': '' @ [dquote] @ or_empty role @ [dquote] @ '' }''"

definition preview_tool :: "'db env \<Rightarrow> clock \<Rightarrow> preview_input \<Rightarrow> 'db world \<Rightarrow> (exn + tool_result) \<times> 'db world" where
  "preview_tool env ck inp w =
     (if isForbidden (pv_query inp)
      then (Inr (ToolError ''Query contains forbidden statements (INSERT/UPDATE/DELETE/DROP/ALTER/TRUNCATE).''), w)
      else (case sqlFormat env (pv_query inp) of
        Inl e \<Rightarrow> (Inl e, w)
      | Inr formatted \<Rightarrow>
         (case chat_checkRBACOnSql formatted (pv_userRole inp) of
            Inl e \<Rightarrow> (Inl e, w)
          | Inr (Deny reason) \<Rightarrow> (Inr (ToolError (''RBAC blocked preview creation: '' @ reason)), w)
          | Inr Allow \<Rightarrow>
              (let (pid, w') = store_preview ck formatted (pv_userId inp) (pv_userRole inp) w
               in (Inr (PreviewCreated pid formatted (explainSQL env formatted)
                     (runInstruction pid (pv_userId inp) (pv_userRole inp))), w')))))"

section \<open>POST /execute-preview\<close>

record ep_body =
  body_previewId :: "string option"
  body_userId :: "string option"
  body_userRole :: "string option"

datatype payload = ErrorBody string | OkBody dbresult string

record response =
  status :: nat
  payload :: payload

definition error_message :: "exn \<Rightarrow> string" where
  "error_message e = (if message e = [] then ''unknown error'' else message e)"

definition execute_preview :: "'db env \<Rightarrow> exn + ep_body \<Rightarrow> 'db world \<Rightarrow> response \<times> 'db world" where
  "execute_preview env json w =
     (case json of
        Inl e \<Rightarrow> (\<lparr>status = 500, payload = ErrorBody (error_message e)\<rparr>, w)
      | Inr body \<Rightarrow>
          (case given (body_previewId body) of
            None \<Rightarrow> (\<lparr>status = 400, payload = ErrorBody ''previewId required''\<rparr>, w)
          | Some pid \<Rightarrow>
           (case map_of (global_previews w) pid of
            None \<Rightarrow> (\<lparr>status = 404, payload = ErrorBody ''Preview not found or expired''\<rparr>, w)
          | Some entry \<Rightarrow>
              if isForbidden (query entry)
              then (\<lparr>status = 400, payload = ErrorBody ''Preview contains forbidden statements''\<rparr>, w)
              else (case ep_checkRBACOnSql (query entry) (nullish (body_userRole body) (userRole entry)) of
                Inl e \<Rightarrow> (\<lparr>status = 500, payload = ErrorBody (error_message e)\<rparr>, w)
              | Inr (Deny reason) \<Rightarrow>
                  (\<lparr>status = 403, payload = ErrorBody (''RBAC blocked execution: '' @ reason)\<rparr>, w)
              | Inr Allow \<Rightarrow>
                  (case run env (UserQuery (query entry)) w of
                     (Inl e, w1) \<Rightarrow> (\<lparr>status = 500, payload = ErrorBody (error_message e)\<rparr>, w1)
                   | (Inr rows, w1) \<Rightarrow>
                       (let w2 = snd (run env (AuditInsert
                                  (insertSql (body_previewId body) (query entry) (body_userId body))) w1);
                            w3 = w2\<lparr>global_previews := AList.delete pid (global_previews w2)\<rparr>
                        in (\<lparr>status = 200, payload = OkBody (maskRows rows) (query entry)\<rparr>, w3)))))))"

definition sweep_tick :: "int \<Rightarrow> 'db world \<Rightarrow> 'db world" where
  "sweep_tick now w = w\<lparr>chat_previews := sweep now (chat_previews w)\<rparr>"

lemma role_in_map_nonempty: "map_of ROLE_TABLE_ALLOWLIST role = Some allowed \<Longrightarrow> role \<noteq> []"
  by (auto simp: ROLE_TABLE_ALLOWLIST_def split: if_splits)

lemma checkRBACOnSql_unknown:
  assumes "role \<noteq> []" "map_of ROLE_TABLE_ALLOWLIST role = None" "role \<notin> set object_prototype_keys"
  shows "checkRBACOnSql extract sql (Some role) = Inr (Deny (''Unknown role: '' @ role))"
  using assms by (simp add: checkRBACOnSql_def role_property_def)

text \<open>
  Claim C6, as amended. A role string that is not empty, is not an entry of the policy map
  and is not the name of a member inherited from \<open>Object.prototype\<close> is denied with the
  reason \<open>Unknown role: <role>\<close>, in both routes and for every SQL text; the check neither
  allows nor raises there.
\<close>

theorem unknown_role_denied:
  assumes "role \<noteq> []" "map_of ROLE_TABLE_ALLOWLIST role = None" "role \<notin> set object_prototype_keys"
  shows "chat_checkRBACOnSql sql (Some role) = Inr (Deny (''Unknown role: '' @ role))
       \<and> ep_checkRBACOnSql sql (Some role) = Inr (Deny (''Unknown role: '' @ role))"
  using assms by (simp add: chat_checkRBACOnSql_def ep_checkRBACOnSql_def checkRBACOnSql_unknown)

theorem unknown_role_denied_witness:
  "chat_checkRBACOnSql ''SELECT * FROM sales'' (Some ''unknown_role'') = Inr (Deny ''Unknown role: unknown_role'')
   \<and> ep_checkRBACOnSql ''SELECT * FROM sales'' (Some ''unknown_role'') = Inr (Deny ''Unknown role: unknown_role'')"
proof -
  have "''unknown_role'' \<noteq> []" by simp
  moreover have "map_of ROLE_TABLE_ALLOWLIST ''unknown_role'' = None"
    by (simp add: ROLE_TABLE_ALLOWLIST_def)
  moreover have "''unknown_role'' \<notin> set object_prototype_keys"
    by (simp add: object_prototype_keys_def)
  ultimately show ?thesis
    using unknown_role_denied [of "''unknown_role''" "''SELECT * FROM sales''"] by simp
qed

text \<open>
  The claim as stated fails: the empty string is a role string that is not an entry of the
  policy map, and the check allows it (it is falsy, so it counts as no role).
\<close>

theorem empty_role_allowed:
  "map_of ROLE_TABLE_ALLOWLIST '''' = None
   \<and> chat_checkRBACOnSql ''SELECT * FROM sales'' (Some '''') = Inr Allow
   \<and> ep_checkRBACOnSql ''SELECT * FROM sales'' (Some '''') = Inr Allow"
  by (simp add: ROLE_TABLE_ALLOWLIST_def chat_checkRBACOnSql_def ep_checkRBACOnSql_def checkRBACOnSql_def)

lemma checkRBACOnSql_no_tables:
  assumes "map_of ROLE_TABLE_ALLOWLIST role = Some allowed"
  shows "extract sql = [] \<Longrightarrow> checkRBACOnSql extract sql (Some role) = Inr Allow"
    and "checkRBACOnSql extract sql (Some role) = Inr (Deny reason) \<Longrightarrow> extract sql \<noteq> []"
  using assms role_in_map_nonempty [OF assms]
  by (auto simp: checkRBACOnSql_def role_property_def split: if_splits)

text \<open>
  Claim C10. For a role that is an entry of the policy map, also one whose list of tables
  is empty, the check allows every SQL text in which the extractor of its route finds no
  table name; and when it denies, the extractor found at least one name.
\<close>

theorem no_tables_allowed:
  assumes "map_of ROLE_TABLE_ALLOWLIST role = Some allowed"
  shows "(chat_extractTableNames sql = [] \<longrightarrow> chat_checkRBACOnSql sql (Some role) = Inr Allow)
       \<and> (ep_extractTableNames sql = [] \<longrightarrow> ep_checkRBACOnSql sql (Some role) = Inr Allow)
       \<and> (chat_checkRBACOnSql sql (Some role) = Inr (Deny reason) \<longrightarrow> chat_extractTableNames sql \<noteq> [])
       \<and> (ep_checkRBACOnSql sql (Some role) = Inr (Deny reason) \<longrightarrow> ep_extractTableNames sql \<noteq> [])"
  using checkRBACOnSql_no_tables [OF assms]
  unfolding chat_checkRBACOnSql_def ep_checkRBACOnSql_def by blast

theorem no_tables_allowed_witness:
  "map_of ROLE_TABLE_ALLOWLIST ''hr'' = Some []
   \<and> chat_extractTableNames ''SELECT 1 + 1'' = []
   \<and> chat_checkRBACOnSql ''SELECT 1 + 1'' (Some ''hr'') = Inr Allow
   \<and> ep_extractTableNames ''SELECT 1 + 1'' = []
   \<and> ep_checkRBACOnSql ''SELECT 1 + 1'' (Some ''hr'') = Inr Allow"
proof -
  have m: "map_of ROLE_TABLE_ALLOWLIST ''hr'' = Some []"
    by (simp add: ROLE_TABLE_ALLOWLIST_def)
  have c: "chat_extractTableNames ''SELECT 1 + 1'' = []" by code_simp
  have e: "ep_extractTableNames ''SELECT 1 + 1'' = []" by code_simp
  show ?thesis
    using m c e no_tables_allowed [OF m, of "''SELECT 1 + 1''"] by simp
qed

definition expired :: "int \<Rightarrow> PreviewEntry \<Rightarrow> bool" where
  "expired now entry = (now - createdAt entry > PREVIEW_TTL_MS)"

lemma map_of_sweep_fold:
  "map_of (fold (\<lambda>(pid, entry) m. if now - createdAt entry > PREVIEW_TTL_MS then AList.delete pid m else m) xs m) k
   = (if \<exists>e. (k, e) \<in> set xs \<and> expired now e then None else map_of m k)"
proof (induction xs arbitrary: m)
  case Nil
  then show ?case by simp
next
  case (Cons x xs)
  obtain p e where x: "x = (p, e)" by (cases x)
  show ?case
    unfolding x using Cons.IH
    by (auto simp: expired_def AList.delete_conv')
qed

lemma map_of_sweep:
  assumes "distinct (map fst st)"
  shows "map_of (sweep now st) k =
     (case map_of st k of None \<Rightarrow> None | Some e \<Rightarrow> if expired now e then None else Some e)"
proof (cases "map_of st k")
  case None
  then have "\<And>e. (k, e) \<notin> set st" by (force simp: map_of_eq_None_iff)
  with None show ?thesis by (simp add: sweep_def map_of_sweep_fold)
next
  case (Some e)
  with assms have "\<And>e'. (k, e') \<in> set st \<longleftrightarrow> e' = e"
    by (metis map_of_eq_Some_iff option.inject)
  with Some show ?thesis by (simp add: sweep_def map_of_sweep_fold)
qed

lemma distinct_sweep_fold:
  "distinct (map fst m) \<Longrightarrow>
   distinct (map fst (fold (\<lambda>(pid, entry) m. if now - createdAt entry > PREVIEW_TTL_MS then AList.delete pid m else m) xs m))"
  by (induction xs arbitrary: m) (auto simp: AList.distinct_delete)

lemma distinct_sweep: "distinct (map fst st) \<Longrightarrow> distinct (map fst (sweep now st))"
  by (simp add: sweep_def distinct_sweep_fold)

lemma store_preview_get:
  assumes "store_preview ck formatted uid role w = (pid, w')"
  shows "map_of (chat_previews w') pid
     = Some \<lparr>query = formatted, userId = uid, userRole = role, createdAt = now_created ck\<rparr>"
    and "global_previews w' = global_previews w" and "db_log w' = db_log w"
    and "distinct (map fst (chat_previews w)) \<Longrightarrow> distinct (map fst (chat_previews w'))"
  using assms by (auto simp: store_preview_def Let_def AList.update_conv' AList.distinct_update)

lemma preview_tool_created:
  assumes "preview_tool env ck inp w = (Inr (PreviewCreated pid fq ex note), w')"
  shows "store_preview ck fq (pv_userId inp) (pv_userRole inp) w = (pid, w')"
  using assms
  by (auto simp: preview_tool_def Let_def split: if_splits sum.splits rbac.splits prod.splits)

lemma execute_query_not_created:
  "execute_query env toRun previewId uid w = (Inr (PreviewCreated pid fq ex note), w') \<Longrightarrow> False"
  by (auto simp: execute_query_def Let_def split: if_splits sum.splits prod.splits)

lemma db_tool_created:
  assumes "db_tool env ck inp w = (Inr (PreviewCreated pid fq ex note), w')"
  shows "store_preview ck fq (in_userId inp) (in_userRole inp) w = (pid, w')"
  using assms
  by (auto simp: db_tool_def Let_def dest: execute_query_not_created
      split: if_splits sum.splits rbac.splits prod.splits option.splits)

text \<open>
  Claim C9. The preview stored by the preview tool or by a dry run of the db tool is found
  under the id that was returned, with the query text that was stored (the formatted text
  that the tool also returns). A sweep of the cleanup timer keeps an entry whose age is at
  most the TTL and removes every entry whose age exceeds it, so that a lookup after such a
  sweep finds nothing. The TTL is one hour. The map holds each id once.
\<close>

theorem preview_ttl_lifecycle:
  assumes "distinct (map fst (chat_previews w))"
  shows "(preview_tool env ck pin w = (Inr (PreviewCreated pid fq ex note), w1) \<longrightarrow>
            (\<exists>e. map_of (chat_previews w1) pid = Some e \<and> query e = fq \<and> createdAt e = now_created ck))
       \<and> (db_tool env ck din w = (Inr (PreviewCreated pid fq ex note), w1) \<longrightarrow>
            (\<exists>e. map_of (chat_previews w1) pid = Some e \<and> query e = fq \<and> createdAt e = now_created ck))
       \<and> (map_of (chat_previews w) k = Some e \<and> now - createdAt e \<le> PREVIEW_TTL_MS \<longrightarrow>
            map_of (chat_previews (sweep_tick now w)) k = Some e)
       \<and> (map_of (chat_previews w) k = Some e \<and> now - createdAt e > PREVIEW_TTL_MS \<longrightarrow>
            map_of (chat_previews (sweep_tick now w)) k = None)
       \<and> PREVIEW_TTL_MS = 3600000"
proof (intro conjI impI)
  assume "preview_tool env ck pin w = (Inr (PreviewCreated pid fq ex note), w1)"
  from store_preview_get(1) [OF preview_tool_created [OF this]]
  show "\<exists>e. map_of (chat_previews w1) pid = Some e \<and> query e = fq \<and> createdAt e = now_created ck"
    by simp
next
  assume "db_tool env ck din w = (Inr (PreviewCreated pid fq ex note), w1)"
  from store_preview_get(1) [OF db_tool_created [OF this]]
  show "\<exists>e. map_of (chat_previews w1) pid = Some e \<and> query e = fq \<and> createdAt e = now_created ck"
    by simp
next
  assume "map_of (chat_previews w) k = Some e \<and> now - createdAt e \<le> PREVIEW_TTL_MS"
  then show "map_of (chat_previews (sweep_tick now w)) k = Some e"
    using map_of_sweep [OF assms, of now k] by (simp add: sweep_tick_def expired_def)
next
  assume "map_of (chat_previews w) k = Some e \<and> now - createdAt e > PREVIEW_TTL_MS"
  then show "map_of (chat_previews (sweep_tick now w)) k = None"
    using map_of_sweep [OF assms, of now k] by (simp add: sweep_tick_def expired_def)
next
  show "PREVIEW_TTL_MS = 3600000" by (simp add: PREVIEW_TTL_MS_def)
qed


definition sample_env :: "unit env" where
  "sample_env = \<lparr>sqlFormat = Inr, db_run = (\<lambda>d t. (Inr (Rows []), d)), explainSQL = (\<lambda>q. ''rows'')\<rparr>"

definition sample_clock :: clock where
  "sample_clock = \<lparr>now_id = 1000, random36 = ''k3j9x2a'', now_created = 1000\<rparr>"

lemma sample_id: "makePreviewId sample_clock = ''rs-k3j9x2a''"
  by (simp add: makePreviewId_def sample_clock_def toString36.simps digit36_def)

lemma not_forbidden_select_sales: "\<not> isForbidden ''SELECT * FROM sales''"
  by code_simp

lemma sample_preview:
  "preview_tool sample_env sample_clock
     \<lparr>pv_query = ''SELECT * FROM sales'', pv_userId = None, pv_userRole = None\<rparr> (initial_world ())
   = (Inr (PreviewCreated ''rs-k3j9x2a'' ''SELECT * FROM sales'' ''rows''
        (runInstruction ''rs-k3j9x2a'' None None)),
      \<lparr>chat_previews = [(''rs-k3j9x2a'', \<lparr>query = ''SELECT * FROM sales'', userId = None,
          userRole = None, createdAt = 1000\<rparr>)], global_previews = [], database = (), db_log = []\<rparr>)"
  by (simp add: preview_tool_def not_forbidden_select_sales sample_env_def chat_checkRBACOnSql_def
      checkRBACOnSql_def store_preview_def sample_id initial_world_def)
    (simp add: sample_clock_def Let_def)

theorem preview_ttl_lifecycle_witness:
  "(\<exists>e. map_of (chat_previews (snd (preview_tool sample_env sample_clock
       \<lparr>pv_query = ''SELECT * FROM sales'', pv_userId = None, pv_userRole = None\<rparr> (initial_world ()))))
       ''rs-k3j9x2a'' = Some e \<and> query e = ''SELECT * FROM sales'' \<and> createdAt e = 1000)
   \<and> map_of (chat_previews (sweep_tick 3601000 (snd (preview_tool sample_env sample_clock
       \<lparr>pv_query = ''SELECT * FROM sales'', pv_userId = None, pv_userRole = None\<rparr> (initial_world ())))))
       ''rs-k3j9x2a'' \<noteq> None
   \<and> map_of (chat_previews (sweep_tick 3601001 (snd (preview_tool sample_env sample_clock
       \<lparr>pv_query = ''SELECT * FROM sales'', pv_userId = None, pv_userRole = None\<rparr> (initial_world ())))))
       ''rs-k3j9x2a'' = None"
proof -
  let ?pin = "\<lparr>pv_query = ''SELECT * FROM sales'', pv_userId = None, pv_userRole = None\<rparr>"
  let ?e = "\<lparr>query = ''SELECT * FROM sales'', userId = None, userRole = None, createdAt = 1000\<rparr>"
  let ?w1 = "snd (preview_tool sample_env sample_clock ?pin (initial_world ()))"
  have d0: "distinct (map fst (chat_previews (initial_world ())))"
    by (simp add: initial_world_def)
  have d1: "distinct (map fst (chat_previews ?w1))"
    by (simp add: sample_preview)
  have g: "map_of (chat_previews ?w1) ''rs-k3j9x2a'' = Some ?e"
    by (simp add: sample_preview)
  have c: "now_created sample_clock = 1000" by (simp add: sample_clock_def)
  note put = preview_ttl_lifecycle [OF d0, of sample_env sample_clock ?pin "''rs-k3j9x2a''"
      "''SELECT * FROM sales''" "''rows''" "runInstruction ''rs-k3j9x2a'' None None" ?w1]
  note swp1 = preview_ttl_lifecycle [OF d1, of _ _ _ _ _ _ _ _ _ "''rs-k3j9x2a''" ?e 3601000]
  note swp2 = preview_ttl_lifecycle [OF d1, of _ _ _ _ _ _ _ _ _ "''rs-k3j9x2a''" ?e 3601001]
  have 1: "\<exists>e. map_of (chat_previews ?w1) ''rs-k3j9x2a'' = Some e \<and> query e = ''SELECT * FROM sales''
      \<and> createdAt e = 1000"
    using put c by (simp add: sample_preview)
  have 2: "map_of (chat_previews (sweep_tick 3601000 ?w1)) ''rs-k3j9x2a'' = Some ?e"
    using swp1 g by (simp add: PREVIEW_TTL_MS_def)
  have 3: "map_of (chat_previews (sweep_tick 3601001 ?w1)) ''rs-k3j9x2a'' = None"
    using swp2 g by (simp add: PREVIEW_TTL_MS_def)
  from 1 2 3 show ?thesis by simp
qed

lemma run_effect:
  assumes "run env call w = (res, w1)"
  shows "db_log w1 = db_log w @ [call]" "chat_previews w1 = chat_previews w"
    "global_previews w1 = global_previews w"
  using assms by (auto simp: run_def Let_def split: prod.splits)

lemma run_snd_effect:
  "db_log (snd (run env call w)) = db_log w @ [call]"
  "chat_previews (snd (run env call w)) = chat_previews w"
  "global_previews (snd (run env call w)) = global_previews w"
  by (cases "run env call w"; simp add: run_effect)+

text \<open>What \<open>execute_query\<close> does, case by case.\<close>

lemma execute_query_cases:
  assumes "execute_query env toRun previewId uid w = (out, w')"
  obtains
    (forbidden) "isForbidden toRun" "w' = w"
      "out = Inr (ToolError ''Query contains forbidden statements and will not be executed.'')"
  | (failed) e where "\<not> isForbidden toRun" "out = Inl e" "db_log w' = db_log w @ [UserQuery toRun]"
      "chat_previews w' = chat_previews w" "global_previews w' = global_previews w"
  | (ran) rows where "\<not> isForbidden toRun" "out = Inr (Executed (maskRows rows) toRun)"
      "db_log w' = db_log w @ [UserQuery toRun, AuditInsert (insertSql previewId toRun uid)]"
      "chat_previews w' = (case given previewId of None \<Rightarrow> chat_previews w
                           | Some pid \<Rightarrow> AList.delete pid (chat_previews w))"
      "global_previews w' = global_previews w"
proof (cases "isForbidden toRun")
  case True
  with assms show ?thesis by (intro forbidden) (simp_all add: execute_query_def)
next
  case nf: False
  obtain res w1 where r: "run env (UserQuery toRun) w = (res, w1)" by (cases "run env (UserQuery toRun) w")
  note e1 = run_effect [OF r]
  show ?thesis
  proof (cases res)
    case (Inl e)
    with assms nf r have "out = Inl e" "w' = w1" by (simp_all add: execute_query_def)
    with nf e1 show ?thesis by (intro failed [of e]) simp_all
  next
    case (Inr rows)
    let ?w2 = "snd (run env (AuditInsert (insertSql previewId toRun uid)) w1)"
    from assms nf r Inr have o: "out = Inr (Executed (maskRows rows) toRun)"
      and w': "w' = (case given previewId of
                   Some pid \<Rightarrow> ?w2\<lparr>chat_previews := AList.delete pid (chat_previews ?w2)\<rparr>
                 | None \<Rightarrow> ?w2)"
      by (simp_all add: execute_query_def Let_def)
    show ?thesis
    proof (rule ran [of rows])
      show "\<not> isForbidden toRun" by (rule nf)
      show "out = Inr (Executed (maskRows rows) toRun)" by (rule o)
      show "db_log w' = db_log w @ [UserQuery toRun, AuditInsert (insertSql previewId toRun uid)]"
        unfolding w' by (simp add: run_snd_effect e1 split: option.splits)
      show "chat_previews w' = (case given previewId of None \<Rightarrow> chat_previews w
                           | Some pid \<Rightarrow> AList.delete pid (chat_previews w))"
        unfolding w' by (simp add: run_snd_effect e1 split: option.splits)
      show "global_previews w' = global_previews w"
        unfolding w' by (simp add: run_snd_effect e1 split: option.splits)
    qed
  qed
qed

definition resolved_role :: "string option \<Rightarrow> PreviewEntry option \<Rightarrow> string option" where
  "resolved_role requested entry =
     (case entry of None \<Rightarrow> requested | Some e \<Rightarrow> nullish requested (userRole e))"

definition chat_lookup :: "string option \<Rightarrow> 'db world \<Rightarrow> PreviewEntry option" where
  "chat_lookup previewId w =
     (case given previewId of None \<Rightarrow> None | Some pid \<Rightarrow> map_of (chat_previews w) pid)"


text \<open>The db tool, case by case.\<close>

lemma db_tool_cases:
  assumes "db_tool env ck inp w = (out, w')"
  obtains
    (rejected) m where "out = Inr (ToolError m)" "w' = w"
  | (raised) e where "out = Inl e" "w' = w"
  | (stored) formatted pid where "sqlFormat env (in_query inp) = Inr formatted" "in_dryRun inp"
      "store_preview ck formatted (in_userId inp) (in_userRole inp) w = (pid, w')"
      "out = Inr (PreviewCreated pid formatted (explainSQL env formatted)
         ''This is a preview. To execute use the /api/execute-preview REST endpoint (POST { previewId, userId, userRole }).'')"
  | (executed) formatted toRun where "\<not> isForbidden (in_query inp)"
      "sqlFormat env (in_query inp) = Inr formatted"
      "chat_checkRBACOnSql formatted (in_userRole inp) = Inr Allow" "\<not> in_dryRun inp"
      "given (in_previewId inp) \<noteq> None \<longrightarrow> chat_lookup (in_previewId inp) w \<noteq> None"
      "toRun = (case chat_lookup (in_previewId inp) w of None \<Rightarrow> formatted | Some e \<Rightarrow> query e)"
      "chat_checkRBACOnSql toRun (resolved_role (in_userRole inp) (chat_lookup (in_previewId inp) w)) = Inr Allow"
      "execute_query env toRun (in_previewId inp) (in_userId inp) w = (out, w')"
proof (cases "isForbidden (in_query inp)")
  case True
  with assms have "\<exists>m. out = Inr (ToolError m)" "w' = w"
          by (auto simp: db_tool_def)
        then show ?thesis using rejected by blast
next
  case nf: False
  show ?thesis
  proof (cases "sqlFormat env (in_query inp)")
    case (Inl e)
    with assms nf show ?thesis by (intro raised [of e]) (simp_all add: db_tool_def)
  next
    case fmt: (Inr formatted)
    show ?thesis
    proof (cases "chat_checkRBACOnSql formatted (in_userRole inp)")
      case (Inl e)
      with assms nf fmt show ?thesis by (intro raised [of e]) (simp_all add: db_tool_def)
    next
      case (Inr r)
      show ?thesis
      proof (cases r)
        case (Deny reason)
        with assms nf fmt Inr have "\<exists>m. out = Inr (ToolError m)" "w' = w"
          by (auto simp: db_tool_def)
        then show ?thesis using rejected by blast
      next
        case Allow
        note ok = Inr [unfolded Allow]
        show ?thesis
        proof (cases "in_dryRun inp")
          case True
          obtain pid w1 where sp: "store_preview ck formatted (in_userId inp) (in_userRole inp) w = (pid, w1)"
            by (cases "store_preview ck formatted (in_userId inp) (in_userRole inp) w")
          with assms nf fmt ok True show ?thesis
            by (intro stored [of formatted pid]) (simp_all add: db_tool_def)
        next
          case nd: False
          show ?thesis
          proof (cases "given (in_previewId inp)")
            case None
            with assms nf fmt ok nd show ?thesis
              by (intro executed [of formatted formatted])
                (simp_all add: db_tool_def chat_lookup_def resolved_role_def)
          next
            case (Some pid)
            show ?thesis
            proof (cases "map_of (chat_previews w) pid")
              case None
              with assms nf fmt ok nd Some have "\<exists>m. out = Inr (ToolError m)" "w' = w"
          by (auto simp: db_tool_def)
        then show ?thesis using rejected by blast
            next
              case found: (Some entry)
              show ?thesis
              proof (cases "chat_checkRBACOnSql (query entry) (nullish (in_userRole inp) (userRole entry))")
                case (Inl e)
                with assms nf fmt ok nd Some found show ?thesis
                  by (intro raised [of e]) (simp_all add: db_tool_def)
              next
                case r2: (Inr r')
                show ?thesis
                proof (cases r')
                  case (Deny reason)
                  with assms nf fmt ok nd Some found r2 have "\<exists>m. out = Inr (ToolError m)" "w' = w"
          by (auto simp: db_tool_def)
        then show ?thesis using rejected by blast
                next
                  case Allow
                  with assms nf fmt ok nd Some found r2 show ?thesis
                    by (intro executed [of formatted "query entry"])
                      (simp_all add: db_tool_def chat_lookup_def resolved_role_def)
                qed
              qed
            qed
          qed
        qed
      qed
    qed
  qed
qed


text \<open>The handler of \<open>POST /execute-preview\<close>, case by case.\<close>

lemma execute_preview_cases:
  assumes "execute_preview env json w = (resp, w')"
  obtains
    (bad_json) e where "json = Inl e" "w' = w"
      "resp = \<lparr>status = 500, payload = ErrorBody (error_message e)\<rparr>"
  | (no_id) body where "json = Inr body" "given (body_previewId body) = None" "w' = w"
      "resp = \<lparr>status = 400, payload = ErrorBody ''previewId required''\<rparr>"
  | (not_found) body pid where "json = Inr body" "given (body_previewId body) = Some pid"
      "map_of (global_previews w) pid = None" "w' = w"
      "resp = \<lparr>status = 404, payload = ErrorBody ''Preview not found or expired''\<rparr>"
  | (forbidden) body pid entry where "json = Inr body" "given (body_previewId body) = Some pid"
      "map_of (global_previews w) pid = Some entry" "isForbidden (query entry)" "w' = w"
      "resp = \<lparr>status = 400, payload = ErrorBody ''Preview contains forbidden statements''\<rparr>"
  | (raised) body pid entry e where "json = Inr body" "given (body_previewId body) = Some pid"
      "map_of (global_previews w) pid = Some entry" "\<not> isForbidden (query entry)"
      "ep_checkRBACOnSql (query entry) (nullish (body_userRole body) (userRole entry)) = Inl e"
      "w' = w" "resp = \<lparr>status = 500, payload = ErrorBody (error_message e)\<rparr>"
  | (denied) body pid entry reason where "json = Inr body" "given (body_previewId body) = Some pid"
      "map_of (global_previews w) pid = Some entry" "\<not> isForbidden (query entry)"
      "ep_checkRBACOnSql (query entry) (nullish (body_userRole body) (userRole entry)) = Inr (Deny reason)"
      "w' = w" "resp = \<lparr>status = 403, payload = ErrorBody (''RBAC blocked execution: '' @ reason)\<rparr>"
  | (failed) body pid entry e where "json = Inr body" "given (body_previewId body) = Some pid"
      "map_of (global_previews w) pid = Some entry" "\<not> isForbidden (query entry)"
      "ep_checkRBACOnSql (query entry) (nullish (body_userRole body) (userRole entry)) = Inr Allow"
      "resp = \<lparr>status = 500, payload = ErrorBody (error_message e)\<rparr>"
      "db_log w' = db_log w @ [UserQuery (query entry)]"
      "chat_previews w' = chat_previews w" "global_previews w' = global_previews w"
  | (ran) body pid entry rows where "json = Inr body" "given (body_previewId body) = Some pid"
      "map_of (global_previews w) pid = Some entry" "\<not> isForbidden (query entry)"
      "ep_checkRBACOnSql (query entry) (nullish (body_userRole body) (userRole entry)) = Inr Allow"
      "resp = \<lparr>status = 200, payload = OkBody (maskRows rows) (query entry)\<rparr>"
      "db_log w' = db_log w @ [UserQuery (query entry),
         AuditInsert (insertSql (body_previewId body) (query entry) (body_userId body))]"
      "chat_previews w' = chat_previews w"
      "global_previews w' = AList.delete pid (global_previews w)"
proof (cases json)
  case (Inl e)
  with assms show ?thesis by (intro bad_json [of e]) (simp_all add: execute_preview_def)
next
  case js: (Inr body)
  show ?thesis
  proof (cases "given (body_previewId body)")
    case None
    with assms js show ?thesis by (intro no_id [of body]) (simp_all add: execute_preview_def)
  next
    case gv: (Some pid)
    show ?thesis
    proof (cases "map_of (global_previews w) pid")
      case None
      with assms js gv show ?thesis
        by (intro not_found [of body pid]) (simp_all add: execute_preview_def)
    next
      case found: (Some entry)
      show ?thesis
      proof (cases "isForbidden (query entry)")
        case True
        with assms js gv found show ?thesis
          by (intro forbidden [of body pid entry]) (simp_all add: execute_preview_def)
      next
        case nf: False
        show ?thesis
        proof (cases "ep_checkRBACOnSql (query entry) (nullish (body_userRole body) (userRole entry))")
          case (Inl e)
          with assms js gv found nf show ?thesis
            by (intro raised [of body pid entry e]) (simp_all add: execute_preview_def)
        next
          case chk: (Inr r)
          show ?thesis
          proof (cases r)
            case (Deny reason)
            with assms js gv found nf chk show ?thesis
              by (intro denied [of body pid entry reason]) (simp_all add: execute_preview_def)
          next
            case Allow
            note ok = chk [unfolded Allow]
            obtain res w1 where r: "run env (UserQuery (query entry)) w = (res, w1)"
              by (cases "run env (UserQuery (query entry)) w")
            note e1 = run_effect [OF r]
            show ?thesis
            proof (cases res)
              case (Inl e)
              with assms js gv found nf ok r
              have "resp = \<lparr>status = 500, payload = ErrorBody (error_message e)\<rparr>" "w' = w1"
                by (simp_all add: execute_preview_def)
              with js gv found nf ok e1 show ?thesis
                by (intro failed [of body pid entry e]) simp_all
            next
              case (Inr rows)
              let ?w2 = "snd (run env (AuditInsert
                  (insertSql (body_previewId body) (query entry) (body_userId body))) w1)"
              from assms js gv found nf ok r Inr
              have "resp = \<lparr>status = 200, payload = OkBody (maskRows rows) (query entry)\<rparr>"
                "w' = ?w2\<lparr>global_previews := AList.delete pid (global_previews ?w2)\<rparr>"
                by (simp_all add: execute_preview_def Let_def)
              with js gv found nf ok e1 show ?thesis
                by (intro ran [of body pid entry rows]) (simp_all add: run_snd_effect)
            qed
          qed
        qed
      qed
    qed
  qed
qed



definition sample_entry :: PreviewEntry where
  "sample_entry = \<lparr>query = ''SELECT * FROM sales'', userId = None, userRole = Some ''analyst'',
     createdAt = 1000\<rparr>"

definition sample_world :: "unit world" where
  "sample_world = \<lparr>chat_previews = [(''p1'', sample_entry)], global_previews = [(''p1'', sample_entry)],
     database = (), db_log = []\<rparr>"

lemma analyst_may_read_sales:
  "chat_checkRBACOnSql ''SELECT * FROM sales'' (Some ''analyst'') = Inr Allow"
  "ep_checkRBACOnSql ''SELECT * FROM sales'' (Some ''analyst'') = Inr Allow"
  by code_simp+

lemma guest_may_not_read_sales:
  "chat_checkRBACOnSql ''SELECT * FROM sales'' (Some ''guest'')
     = Inr (Deny (''Role '' @ [dquote] @ ''guest'' @ [dquote] @ '' is not allowed to access table ''
          @ [dquote] @ ''sales'' @ [dquote]))"
  "ep_checkRBACOnSql ''SELECT * FROM sales'' (Some ''guest'')
     = Inr (Deny (''Role '' @ [dquote] @ ''guest'' @ [dquote] @ '' is not allowed to access table ''
          @ [dquote] @ ''sales'' @ [dquote]))"
  by code_simp+

lemma guest_may_read_products:
  "chat_checkRBACOnSql ''SELECT * FROM products'' (Some ''guest'') = Inr Allow"
  "\<not> isForbidden ''SELECT * FROM products''"
  by code_simp+

lemma sample_execute_by_id:
  "db_tool sample_env sample_clock
     \<lparr>in_query = ''SELECT * FROM sales'', in_dryRun = False, in_userId = None,
      in_userRole = Some ''analyst'', in_previewId = Some ''p1''\<rparr> sample_world
   = (Inr (Executed (Rows []) ''SELECT * FROM sales''),
      \<lparr>chat_previews = [], global_previews = [(''p1'', sample_entry)], database = (),
       db_log = [UserQuery ''SELECT * FROM sales'',
                 AuditInsert (insertSql (Some ''p1'') ''SELECT * FROM sales'' None)]\<rparr>)"
  by (simp add: db_tool_def not_forbidden_select_sales sample_env_def analyst_may_read_sales
      given_def sample_world_def sample_entry_def nullish_def execute_query_def run_def
      maskRows_def Let_def)

lemma sample_post:
  "execute_preview sample_env
     (Inr \<lparr>body_previewId = Some ''p1'', body_userId = None, body_userRole = None\<rparr>) sample_world
   = (\<lparr>status = 200, payload = OkBody (Rows []) ''SELECT * FROM sales''\<rparr>,
      \<lparr>chat_previews = [(''p1'', sample_entry)], global_previews = [], database = (),
       db_log = [UserQuery ''SELECT * FROM sales'',
                 AuditInsert (insertSql (Some ''p1'') ''SELECT * FROM sales'' None)]\<rparr>)"
  by (simp add: execute_preview_def not_forbidden_select_sales sample_env_def analyst_may_read_sales
      given_def sample_world_def sample_entry_def nullish_def run_def maskRows_def Let_def)


text \<open>
  Claim C3, as amended. A call that resolves the id of a stored preview removes the preview
  when the execution succeeds (the response 200 of \<open>POST /execute-preview\<close>, the rows of the db
  tool). In every other outcome of the request, the rejections by the forbidden-statement
  guard and by the access check among them, the entry stays in the store as it was.
\<close>

theorem preview_removed_after_execution:
  "(execute_preview env (Inr body) w = (resp, w') \<and> given (body_previewId body) = Some pid \<and>
      map_of (global_previews w) pid = Some e \<longrightarrow>
        (status resp = 200 \<longrightarrow> map_of (global_previews w') pid = None) \<and>
        (status resp \<noteq> 200 \<longrightarrow> map_of (global_previews w') pid = Some e))
   \<and> (db_tool env ck inp w = (out, w2) \<and> \<not> in_dryRun inp \<and> given (in_previewId inp) = Some pid \<and>
      map_of (chat_previews w) pid = Some e \<longrightarrow>
        ((\<exists>rows q. out = Inr (Executed rows q)) \<longrightarrow> map_of (chat_previews w2) pid = None) \<and>
        ((\<forall>rows q. out \<noteq> Inr (Executed rows q)) \<longrightarrow> map_of (chat_previews w2) pid = Some e))"
proof (intro conjI impI; elim conjE)
  assume a: "execute_preview env (Inr body) w = (resp, w')"
    and g: "given (body_previewId body) = Some pid" and m: "map_of (global_previews w) pid = Some e"
  from a g m show "map_of (global_previews w') pid = None" if "status resp = 200"
    using that by (cases rule: execute_preview_cases) (auto simp: AList.delete_conv')
  from a g m show "map_of (global_previews w') pid = Some e" if "status resp \<noteq> 200"
    using that by (cases rule: execute_preview_cases) auto
next
  assume a: "db_tool env ck inp w = (out, w2)" and nd: "\<not> in_dryRun inp"
    and g: "given (in_previewId inp) = Some pid" and m: "map_of (chat_previews w) pid = Some e"
  from a show "map_of (chat_previews w2) pid = None" if "\<exists>rows q. out = Inr (Executed rows q)"
  proof (cases rule: db_tool_cases)
    case (executed formatted toRun)
    from executed(8) that g show ?thesis
      by (cases rule: execute_query_cases) (auto simp: AList.delete_conv')
  qed (use that nd in auto)
  from a show "map_of (chat_previews w2) pid = Some e" if "\<forall>rows q. out \<noteq> Inr (Executed rows q)"
  proof (cases rule: db_tool_cases)
    case (executed formatted toRun)
    from executed(8) that g m show ?thesis
      by (cases rule: execute_query_cases) auto
  qed (use that nd m in auto)
qed

lemma sample_post_denied:
  "execute_preview sample_env
     (Inr \<lparr>body_previewId = Some ''p1'', body_userId = None, body_userRole = Some ''guest''\<rparr>) sample_world
   = (\<lparr>status = 403, payload = ErrorBody (''RBAC blocked execution: '' @ ''Role '' @ [dquote] @ ''guest''
          @ [dquote] @ '' is not allowed to access table '' @ [dquote] @ ''sales'' @ [dquote])\<rparr>,
      sample_world)"
  by (simp add: execute_preview_def not_forbidden_select_sales guest_may_not_read_sales given_def
      nullish_def sample_world_def sample_entry_def)

lemma sample_db_denied:
  "db_tool sample_env sample_clock
     \<lparr>in_query = ''SELECT * FROM products'', in_dryRun = False, in_userId = None,
      in_userRole = Some ''guest'', in_previewId = Some ''p1''\<rparr> sample_world
   = (Inr (ToolError (''RBAC blocked query execution: '' @ ''Role '' @ [dquote] @ ''guest''
          @ [dquote] @ '' is not allowed to access table '' @ [dquote] @ ''sales'' @ [dquote])),
      sample_world)"
  by (simp add: db_tool_def guest_may_read_products guest_may_not_read_sales given_def sample_env_def
      nullish_def sample_world_def sample_entry_def)

theorem preview_removed_after_execution_witness:
  "status (fst (execute_preview sample_env
       (Inr \<lparr>body_previewId = Some ''p1'', body_userId = None, body_userRole = None\<rparr>) sample_world)) = 200
   \<and> map_of (global_previews (snd (execute_preview sample_env
       (Inr \<lparr>body_previewId = Some ''p1'', body_userId = None, body_userRole = None\<rparr>) sample_world))) ''p1''
       = None
   \<and> map_of (chat_previews (snd (db_tool sample_env sample_clock
       \<lparr>in_query = ''SELECT * FROM sales'', in_dryRun = False, in_userId = None,
        in_userRole = Some ''analyst'', in_previewId = Some ''p1''\<rparr> sample_world))) ''p1'' = None"
proof -
  let ?body = "\<lparr>body_previewId = Some ''p1'', body_userId = None, body_userRole = None\<rparr>"
  let ?inp = "\<lparr>in_query = ''SELECT * FROM sales'', in_dryRun = False, in_userId = None,
        in_userRole = Some ''analyst'', in_previewId = Some ''p1''\<rparr>"
  obtain resp w' where p: "execute_preview sample_env (Inr ?body) sample_world = (resp, w')"
    and st: "status resp = 200"
    using sample_post by simp
  obtain out w2 where d: "db_tool sample_env sample_clock ?inp sample_world = (out, w2)"
    and o: "out = Inr (Executed (Rows []) ''SELECT * FROM sales'')"
    using sample_execute_by_id by simp
  have g: "given (body_previewId ?body) = Some ''p1''" "given (in_previewId ?inp) = Some ''p1''"
    "\<not> in_dryRun ?inp"
    by (simp_all add: given_def)
  have m: "map_of (global_previews sample_world) ''p1'' = Some sample_entry"
    "map_of (chat_previews sample_world) ''p1'' = Some sample_entry"
    by (simp_all add: sample_world_def)
  note th = preview_removed_after_execution [of sample_env ?body sample_world resp w' "''p1''"
      sample_entry sample_clock ?inp out w2]
  from th [THEN conjunct1, rule_format, OF conjI [OF p conjI [OF g(1) m(1)]], THEN conjunct1, rule_format, OF st]
  have 1: "map_of (global_previews w') ''p1'' = None" .
  from o have "\<exists>rows q. out = Inr (Executed rows q)" by blast
  from th [THEN conjunct2, rule_format, OF conjI [OF d conjI [OF g(3) conjI [OF g(2) m(2)]]],
      THEN conjunct1, rule_format, OF this]
  have 2: "map_of (chat_previews w2) ''p1'' = None" .
  show ?thesis unfolding p d fst_conv snd_conv using st 1 2 by simp
qed

text \<open>
  The claim as stated fails: a call that resolves the id and is rejected by the access
  check leaves the preview in the store, on the REST route and in the db tool alike.
\<close>

theorem rejected_preview_stays:
  "status (fst (execute_preview sample_env
       (Inr \<lparr>body_previewId = Some ''p1'', body_userId = None, body_userRole = Some ''guest''\<rparr>)
       sample_world)) = 403
   \<and> map_of (global_previews (snd (execute_preview sample_env
       (Inr \<lparr>body_previewId = Some ''p1'', body_userId = None, body_userRole = Some ''guest''\<rparr>)
       sample_world))) ''p1'' = Some sample_entry
   \<and> (\<exists>m. fst (db_tool sample_env sample_clock
       \<lparr>in_query = ''SELECT * FROM products'', in_dryRun = False, in_userId = None,
        in_userRole = Some ''guest'', in_previewId = Some ''p1''\<rparr> sample_world) = Inr (ToolError m))
   \<and> map_of (chat_previews (snd (db_tool sample_env sample_clock
       \<lparr>in_query = ''SELECT * FROM products'', in_dryRun = False, in_userId = None,
        in_userRole = Some ''guest'', in_previewId = Some ''p1''\<rparr> sample_world))) ''p1'' = Some sample_entry"
  unfolding sample_post_denied sample_db_denied fst_conv snd_conv
  by (simp add: sample_world_def)



text \<open>
  Claim C2 fails on the code: the chat route keeps its previews in a map of its own module
  and never touches \<open>globalThis.__PENDING_PREVIEWS__\<close>, the map that
  \<open>POST /execute-preview\<close> reads. A preview created by the preview tool in a fresh process is
  found by the db tool and not by the REST route, which answers 404.
\<close>

lemma chat_tools_keep_global:
  "preview_tool env ck pin w = (out, w') \<Longrightarrow> global_previews w' = global_previews w"
  "db_tool env ck din w = (out2, w2) \<Longrightarrow> global_previews w2 = global_previews w"
proof -
  assume "preview_tool env ck pin w = (out, w')"
  then show "global_previews w' = global_previews w"
    by (auto simp: preview_tool_def store_preview_def Let_def
        split: if_splits sum.splits rbac.splits prod.splits)
next
  assume "db_tool env ck din w = (out2, w2)"
  then show "global_previews w2 = global_previews w"
  proof (cases rule: db_tool_cases)
    case (stored formatted pid)
    then show ?thesis by (simp add: store_preview_get(2))
  next
    case (executed formatted toRun)
    from executed(8) show ?thesis by (cases rule: execute_query_cases) auto
  qed auto
qed

lemma execute_preview_empty_store:
  "global_previews w = [] \<Longrightarrow> status (fst (execute_preview env json w)) \<in> {400, 404, 500}
     \<and> snd (execute_preview env json w) = w"
  by (auto simp: execute_preview_def split: sum.splits option.splits)

theorem preview_lost_between_routes:
  "fst (preview_tool sample_env sample_clock
       \<lparr>pv_query = ''SELECT * FROM sales'', pv_userId = None, pv_userRole = None\<rparr> (initial_world ()))
     = Inr (PreviewCreated ''rs-k3j9x2a'' ''SELECT * FROM sales'' ''rows''
         (runInstruction ''rs-k3j9x2a'' None None))
   \<and> fst (execute_preview sample_env
       (Inr \<lparr>body_previewId = Some ''rs-k3j9x2a'', body_userId = None, body_userRole = None\<rparr>)
       (snd (preview_tool sample_env sample_clock
          \<lparr>pv_query = ''SELECT * FROM sales'', pv_userId = None, pv_userRole = None\<rparr> (initial_world ()))))
     = \<lparr>status = 404, payload = ErrorBody ''Preview not found or expired''\<rparr>
   \<and> fst (db_tool sample_env sample_clock
       \<lparr>in_query = ''SELECT * FROM sales'', in_dryRun = False, in_userId = None,
        in_userRole = None, in_previewId = Some ''rs-k3j9x2a''\<rparr>
       (snd (preview_tool sample_env sample_clock
          \<lparr>pv_query = ''SELECT * FROM sales'', pv_userId = None, pv_userRole = None\<rparr> (initial_world ()))))
     = Inr (Executed (Rows []) ''SELECT * FROM sales'')"
  unfolding sample_preview fst_conv snd_conv
  by (simp add: execute_preview_def given_def db_tool_def not_forbidden_select_sales sample_env_def
      chat_checkRBACOnSql_def checkRBACOnSql_def nullish_def execute_query_def run_def maskRows_def
      Let_def)

end
